theory Spec2Isabelle
  imports Complex_Main "HOL-Library.Sublist"
begin

section \<open>Strings of the Go runtime\<close>

text \<open>
  A Go \<open>string\<close> is a sequence of bytes; \<open>len\<close>, indexing and slicing count bytes.
  The model uses \<^typ>\<open>string\<close> (a list of 8-bit characters) for it.  The functions of
  package \<open>strings\<close>, \<open>strconv\<close>, \<open>unicode/utf8\<close> and \<open>regexp\<close> that
  \<open>main.go\<close> calls are written out below on bytes, after their documented behaviour.
\<close>

abbreviation TAB :: char where "TAB \<equiv> CHR 0x09"
abbreviation LF :: char where "LF \<equiv> CHR 0x0A"
abbreviation VT :: char where "VT \<equiv> CHR 0x0B"
abbreviation FF :: char where "FF \<equiv> CHR 0x0C"
abbreviation CR :: char where "CR \<equiv> CHR 0x0D"
abbreviation SP :: char where "SP \<equiv> CHR 0x20"
abbreviation DQ :: char where "DQ \<equiv> CHR 0x22"
abbreviation SQ :: char where "SQ \<equiv> CHR 0x27"
abbreviation BSL :: char where "BSL \<equiv> CHR 0x5C"
abbreviation BQ :: char where "BQ \<equiv> CHR 0x60"

subsection \<open>UTF-8 (\<open>unicode/utf8\<close>)\<close>

definition byte :: "char \<Rightarrow> nat" where
  "byte c = of_char c"

definition RuneError :: nat where
  "RuneError = 0xFFFD"

definition cont :: "char \<Rightarrow> bool" where
  "cont c \<longleftrightarrow> 0x80 \<le> byte c \<and> byte c \<le> 0xBF"

text \<open>
  \<open>utf8.DecodeRuneInString\<close>: the first rune of \<open>s\<close> and its width in bytes;
  \<open>(RuneError, 0)\<close> on the empty string and \<open>(RuneError, 1)\<close> on an encoding that
  is invalid, too short, overlong, a surrogate or out of range.
\<close>

definition second_lo :: "nat \<Rightarrow> nat" where
  "second_lo b0 = (if b0 = 0xE0 then 0xA0 else if b0 = 0xF0 then 0x90 else 0x80)"

definition second_hi :: "nat \<Rightarrow> nat" where
  "second_hi b0 = (if b0 = 0xED then 0x9F else if b0 = 0xF4 then 0x8F else 0xBF)"

definition DecodeRuneInString :: "string \<Rightarrow> nat \<times> nat" where
  "DecodeRuneInString s =
     (case s of
        [] \<Rightarrow> (RuneError, 0)
      | c0 # r0 \<Rightarrow>
          let b0 = byte c0 in
          if b0 < 0x80 then (b0, 1)
          else if 0xC2 \<le> b0 \<and> b0 \<le> 0xDF then
            (case r0 of
               c1 # _ \<Rightarrow>
                 if cont c1 then ((b0 mod 0x20) * 0x40 + byte c1 mod 0x40, 2)
                 else (RuneError, 1)
             | _ \<Rightarrow> (RuneError, 1))
          else if 0xE0 \<le> b0 \<and> b0 \<le> 0xEF then
            (case r0 of
               c1 # c2 # _ \<Rightarrow>
                 if second_lo b0 \<le> byte c1 \<and> byte c1 \<le> second_hi b0 \<and> cont c2
                 then ((b0 mod 0x10) * 0x1000 + (byte c1 mod 0x40) * 0x40 + byte c2 mod 0x40, 3)
                 else (RuneError, 1)
             | _ \<Rightarrow> (RuneError, 1))
          else if 0xF0 \<le> b0 \<and> b0 \<le> 0xF4 then
            (case r0 of
               c1 # c2 # c3 # _ \<Rightarrow>
                 if second_lo b0 \<le> byte c1 \<and> byte c1 \<le> second_hi b0 \<and> cont c2 \<and> cont c3
                 then ((b0 mod 0x08) * 0x40000 + (byte c1 mod 0x40) * 0x1000
                        + (byte c2 mod 0x40) * 0x40 + byte c3 mod 0x40, 4)
                 else (RuneError, 1)
             | _ \<Rightarrow> (RuneError, 1))
          else (RuneError, 1))"

lemma DecodeRuneInString_width:
  "s \<noteq> [] \<Longrightarrow> 0 < snd (DecodeRuneInString s)"
  by (auto simp: DecodeRuneInString_def Let_def split: list.splits)

text \<open>\<open>utf8.ValidString\<close>: every rune of \<open>s\<close> decodes without error.\<close>

function ValidString :: "string \<Rightarrow> bool" where
  "ValidString s =
     (if s = [] then True
      else if DecodeRuneInString s = (RuneError, 1) then False
      else ValidString (drop (snd (DecodeRuneInString s)) s))"
  by pat_completeness auto
termination
  by (relation "measure length") (auto simp: DecodeRuneInString_width intro!: diff_less)

declare ValidString.simps [simp del]

text \<open>\<open>utf8.ValidRune\<close>: in range and not a surrogate half.\<close>

definition ValidRune :: "nat \<Rightarrow> bool" where
  "ValidRune r \<longleftrightarrow> r < 0xD800 \<or> (0xDFFF < r \<and> r \<le> 0x10FFFF)"

text \<open>\<open>utf8.AppendRune\<close> on the empty buffer: the UTF-8 encoding of a rune.\<close>

definition EncodeRune :: "nat \<Rightarrow> string" where
  "EncodeRune r0 =
     (let r = (if ValidRune r0 then r0 else RuneError) in
      if r < 0x80 then [char_of r]
      else if r < 0x800 then [char_of (0xC0 + r div 0x40), char_of (0x80 + r mod 0x40)]
      else if r < 0x10000 then
        [char_of (0xE0 + r div 0x1000), char_of (0x80 + (r div 0x40) mod 0x40),
         char_of (0x80 + r mod 0x40)]
      else
        [char_of (0xF0 + r div 0x40000), char_of (0x80 + (r div 0x1000) mod 0x40),
         char_of (0x80 + (r div 0x40) mod 0x40), char_of (0x80 + r mod 0x40)])"

subsection \<open>Package \<open>strings\<close>\<close>

text \<open>
  The code points for which \<open>unicode.IsSpace\<close> holds, each in its UTF-8 encoding:
  U+0009 to U+000D, U+0020, U+0085, U+00A0, U+1680, U+2000 to U+200A, U+2028, U+2029,
  U+202F, U+205F and U+3000.  An encoding of a rune is unique (the decoder refuses
  overlong forms), so a string starts (ends) with a white space rune exactly when it
  starts (ends) with one of these byte sequences.
\<close>

definition spaceRunes :: "string list" where
  "spaceRunes =
     [[TAB], [LF], [VT], [FF], [CR], [SP],
      [CHR 0xC2, CHR 0x85], [CHR 0xC2, CHR 0xA0],
      [CHR 0xE1, CHR 0x9A, CHR 0x80],
      [CHR 0xE2, CHR 0x80, CHR 0x80], [CHR 0xE2, CHR 0x80, CHR 0x81],
      [CHR 0xE2, CHR 0x80, CHR 0x82], [CHR 0xE2, CHR 0x80, CHR 0x83],
      [CHR 0xE2, CHR 0x80, CHR 0x84], [CHR 0xE2, CHR 0x80, CHR 0x85],
      [CHR 0xE2, CHR 0x80, CHR 0x86], [CHR 0xE2, CHR 0x80, CHR 0x87],
      [CHR 0xE2, CHR 0x80, CHR 0x88], [CHR 0xE2, CHR 0x80, CHR 0x89],
      [CHR 0xE2, CHR 0x80, CHR 0x8A],
      [CHR 0xE2, CHR 0x80, CHR 0xA8], [CHR 0xE2, CHR 0x80, CHR 0xA9],
      [CHR 0xE2, CHR 0x80, CHR 0xAF], [CHR 0xE2, CHR 0x81, CHR 0x9F],
      [CHR 0xE3, CHR 0x80, CHR 0x80]]"

definition leadingSpace :: "string \<Rightarrow> string option" where
  "leadingSpace s = find (\<lambda>p. prefix p s) spaceRunes"

definition trailingSpace :: "string \<Rightarrow> string option" where
  "trailingSpace s = find (\<lambda>p. suffix p s) spaceRunes"

lemma spaceRunes_nonempty: "p \<in> set spaceRunes \<Longrightarrow> p \<noteq> []"
  by (auto simp: spaceRunes_def)

lemma leadingSpace_Some:
  "leadingSpace s = Some p \<Longrightarrow> p \<in> set spaceRunes \<and> prefix p s"
  unfolding leadingSpace_def by (auto simp: find_Some_iff)

lemma trailingSpace_Some:
  "trailingSpace s = Some p \<Longrightarrow> p \<in> set spaceRunes \<and> suffix p s"
  unfolding trailingSpace_def by (auto simp: find_Some_iff)

lemma leadingSpace_shorter:
  assumes "leadingSpace s = Some p"
  shows "length (drop (length p) s) < length s"
proof -
  from assms have "p \<noteq> []" and "prefix p s"
    using leadingSpace_Some spaceRunes_nonempty by blast+
  then have "0 < length p" and "length p \<le> length s"
    by (simp_all add: prefix_length_le)
  then show ?thesis unfolding length_drop by linarith
qed

lemma trailingSpace_shorter:
  assumes "trailingSpace s = Some p"
  shows "length (take (length s - length p) s) < length s"
proof -
  from assms have "p \<noteq> []" and "suffix p s"
    using trailingSpace_Some spaceRunes_nonempty by blast+
  then have "0 < length p" and "length p \<le> length s"
    by (simp_all add: suffix_length_le)
  then show ?thesis unfolding length_take by linarith
qed

text \<open>\<open>strings.TrimLeftFunc(s, unicode.IsSpace)\<close> and \<open>strings.TrimRightFunc\<close>.\<close>

function TrimLeft :: "string \<Rightarrow> string" where
  "TrimLeft s =
     (case leadingSpace s of
        None \<Rightarrow> s
      | Some p \<Rightarrow> TrimLeft (drop (length p) s))"
  by pat_completeness auto
termination
  by (relation "measure length") (auto dest: leadingSpace_shorter)

function TrimRight :: "string \<Rightarrow> string" where
  "TrimRight s =
     (case trailingSpace s of
        None \<Rightarrow> s
      | Some p \<Rightarrow> TrimRight (take (length s - length p) s))"
  by pat_completeness auto
termination
  by (relation "measure length") (auto dest: trailingSpace_shorter)

text \<open>
  \<open>strings.TrimSpace\<close>: all leading and trailing white space removed, as defined by
  Unicode.
\<close>

definition TrimSpace :: "string \<Rightarrow> string" where
  "TrimSpace s = TrimRight (TrimLeft s)"

text \<open>\<open>strings.HasPrefix\<close> and \<open>strings.Index\<close> (\<open>None\<close> for Go's \<open>-1\<close>).\<close>

definition HasPrefix :: "string \<Rightarrow> string \<Rightarrow> bool" where
  "HasPrefix s pre = prefix pre s"

fun Index :: "string \<Rightarrow> string \<Rightarrow> nat option" where
  "Index [] sub = (if sub = [] then Some 0 else None)"
| "Index (c # t) sub =
     (if prefix sub (c # t) then Some 0 else map_option Suc (Index t sub))"

lemma Index_bound: "Index s sub = Some k \<Longrightarrow> k + length sub \<le> length s"
  by (induction s arbitrary: k) (auto split: if_splits dest: prefix_length_le)

text \<open>
  \<open>strings.ReplaceAll(s, old, new)\<close>: the non-overlapping occurrences of \<open>old\<close>, found
  from the left, are replaced.  \<open>main.go\<close> calls it with a non-empty \<open>old\<close> only; the
  model leaves \<open>s\<close> as it is for an empty one (Go would insert \<open>new\<close> between runes).
\<close>

function ReplaceAll :: "string \<Rightarrow> string \<Rightarrow> string \<Rightarrow> string" where
  "ReplaceAll s old new =
     (if old = [] \<or> s = [] then s
      else if prefix old s then new @ ReplaceAll (drop (length old) s) old new
      else hd s # ReplaceAll (tl s) old new)"
  by pat_completeness auto
termination
  by (relation "measure (\<lambda>(s, old, new). length s)") (auto intro!: diff_less)

declare ReplaceAll.simps [simp del]

lemma ReplaceAll_Nil: "ReplaceAll [] old new = []"
  by (simp add: ReplaceAll.simps)

lemma ReplaceAll_match:
  "old \<noteq> [] \<Longrightarrow> prefix old s \<Longrightarrow>
   ReplaceAll s old new = new @ ReplaceAll (drop (length old) s) old new"
  by (subst ReplaceAll.simps) auto

lemma ReplaceAll_skip:
  "old \<noteq> [] \<Longrightarrow> \<not> prefix old (c # t) \<Longrightarrow>
   ReplaceAll (c # t) old new = c # ReplaceAll t old new"
  by (subst ReplaceAll.simps) simp

text \<open>
  \<open>strings.Split(s, sep)\<close> for a non-empty separator (the only use in \<open>main.go\<close> is
  \<open>sep = "\n"\<close>; an empty separator, which Go explodes into runes, is not modelled and
  gives \<open>[s]\<close>), and \<open>strings.Join\<close>.
\<close>

function Split :: "string \<Rightarrow> string \<Rightarrow> string list" where
  "Split s sep =
     (if sep = [] then [s]
      else case Index s sep of
             None \<Rightarrow> [s]
           | Some i \<Rightarrow> take i s # Split (drop (i + length sep) s) sep)"
  by pat_completeness auto
termination
proof (relation "measure (\<lambda>(s, sep). length s)", goal_cases)
  case 1
  show ?case by simp
next
  case (2 s sep i)
  then have "0 < length sep" and "i + length sep \<le> length s"
    by (simp_all add: Index_bound)
  then have "length s - (i + length sep) < length s" by linarith
  then show ?case by simp
qed

declare Split.simps [simp del]

fun Join :: "string list \<Rightarrow> string \<Rightarrow> string" where
  "Join [] sep = []"
| "Join [x] sep = x"
| "Join (x # y # ys) sep = x @ sep @ Join (y # ys) sep"

text \<open>
  \<open>strings.ToLower\<close> maps every rune with \<open>unicode.ToLower\<close>.  \<open>main.go\<close> looks at its
  result only through \<open>HasPrefix\<close> with an ASCII prefix, so the model writes out the runes
  that are mapped to an ASCII letter: \<open>A\<close> to \<open>Z\<close>, U+0130 (bytes \<open>C4 B0\<close>, mapped to
  \<open>i\<close>) and U+212A (bytes \<open>E2 84 AA\<close>, mapped to \<open>k\<close>).  Every other byte of \<open>0x80\<close>
  or more belongs to a rune that Go maps to a rune outside ASCII (an invalid byte to
  U+FFFD), whose encoding again has bytes of \<open>0x80\<close> or more only; the model keeps those
  bytes as they are.
\<close>

definition lowerASCII :: "char \<Rightarrow> char" where
  "lowerASCII c = (if 0x41 \<le> byte c \<and> byte c \<le> 0x5A then char_of (byte c + 0x20) else c)"

fun ToLower :: "string \<Rightarrow> string" where
  "ToLower [] = []"
| "ToLower (c # t) =
     (if c = CHR 0xC4 \<and> prefix [CHR 0xB0] t then CHR ''i'' # ToLower (drop 1 t)
      else if c = CHR 0xE2 \<and> prefix [CHR 0x84, CHR 0xAA] t then CHR ''k'' # ToLower (drop 2 t)
      else lowerASCII c # ToLower t)"

subsection \<open>\<open>strconv.Unquote\<close>\<close>

definition unhex :: "char \<Rightarrow> nat option" where
  "unhex c =
     (let b = byte c in
      if 0x30 \<le> b \<and> b \<le> 0x39 then Some (b - 0x30)
      else if 0x61 \<le> b \<and> b \<le> 0x66 then Some (b - 0x61 + 10)
      else if 0x41 \<le> b \<and> b \<le> 0x46 then Some (b - 0x41 + 10)
      else None)"

fun hexval :: "nat \<Rightarrow> string \<Rightarrow> nat option" where
  "hexval v [] = Some v"
| "hexval v (c # cs) = (case unhex c of None \<Rightarrow> None | Some x \<Rightarrow> hexval (v * 16 + x) cs)"

fun octval :: "nat \<Rightarrow> string \<Rightarrow> nat option" where
  "octval v [] = Some v"
| "octval v (c # cs) =
     (if 0x30 \<le> byte c \<and> byte c \<le> 0x37 then octval (v * 8 + (byte c - 0x30)) cs else None)"

text \<open>
  \<open>strconv.UnquoteChar(s, quote)\<close>: the first character or escape sequence of \<open>s\<close>, as
  (value, multibyte, tail); \<open>None\<close> is \<open>ErrSyntax\<close>.
\<close>

definition UnquoteChar :: "string \<Rightarrow> char \<Rightarrow> (nat \<times> bool \<times> string) option" where
  "UnquoteChar s quote =
     (case s of
        [] \<Rightarrow> None
      | c # t \<Rightarrow>
          if c = quote \<and> (quote = SQ \<or> quote = DQ) then None
          else if 0x80 \<le> byte c then
            Some (fst (DecodeRuneInString s), True, drop (snd (DecodeRuneInString s)) s)
          else if c \<noteq> BSL then Some (byte c, False, t)
          else
            (case t of
               [] \<Rightarrow> None
             | c1 # s2 \<Rightarrow>
                 if c1 = CHR ''a'' then Some (0x07, False, s2)
                 else if c1 = CHR ''b'' then Some (0x08, False, s2)
                 else if c1 = CHR ''f'' then Some (0x0C, False, s2)
                 else if c1 = CHR ''n'' then Some (0x0A, False, s2)
                 else if c1 = CHR ''r'' then Some (0x0D, False, s2)
                 else if c1 = CHR ''t'' then Some (0x09, False, s2)
                 else if c1 = CHR ''v'' then Some (0x0B, False, s2)
                 else if c1 = CHR ''x'' \<or> c1 = CHR ''u'' \<or> c1 = CHR ''U'' then
                   (let n = (if c1 = CHR ''x'' then 2 else if c1 = CHR ''u'' then 4 else 8) in
                    if length s2 < n then None
                    else case hexval 0 (take n s2) of
                           None \<Rightarrow> None
                         | Some v \<Rightarrow>
                             if c1 = CHR ''x'' then Some (v, False, drop n s2)
                             else if \<not> ValidRune v then None
                             else Some (v, True, drop n s2))
                 else if 0x30 \<le> byte c1 \<and> byte c1 \<le> 0x37 then
                   (if length s2 < 2 then None
                    else case octval (byte c1 - 0x30) (take 2 s2) of
                           None \<Rightarrow> None
                         | Some v \<Rightarrow> if 255 < v then None else Some (v, False, drop 2 s2))
                 else if c1 = BSL then Some (0x5C, False, s2)
                 else if c1 = SQ \<or> c1 = DQ then
                   (if c1 \<noteq> quote then None else Some (byte c1, False, s2))
                 else None))"

lemma drop_width_shorter: "s \<noteq> [] \<Longrightarrow> 0 < n \<Longrightarrow> length (drop n s) < length s"
  by (cases s) auto

lemma UnquoteChar_shorter:
  assumes "UnquoteChar s quote = Some (r, mb, rem)"
  shows "length rem < length s"
proof (cases s)
  case Nil
  with assms show ?thesis by (simp add: UnquoteChar_def)
next
  case (Cons c t)
  then have d: "length (drop (snd (DecodeRuneInString s)) s) < length s"
    by (intro drop_width_shorter DecodeRuneInString_width) simp_all
  show ?thesis
  proof (cases "c = BSL")
    case False
    with assms Cons d show ?thesis
      by (auto simp: UnquoteChar_def byte_def split: if_splits)
  next
    case True
    have "0x80 \<le> byte c \<longleftrightarrow> False" using True by (simp add: byte_def)
    with assms Cons True obtain c1 s2 where t: "t = c1 # s2" and "length rem \<le> length s2"
      by (cases t) (auto simp: UnquoteChar_def Let_def split: if_splits option.splits)
    with Cons show ?thesis by simp
  qed
qed

text \<open>
  The loop of \<open>strconv.unquote\<close> over a quoted string with escape sequences: it stops
  at the first unescaped quote (or at the end of the input), refuses a raw newline, and
  takes exactly one character of a single-quoted string.  The result is the buffer and
  the input that is left.
\<close>

function unquoteLoop :: "char \<Rightarrow> string \<Rightarrow> string \<Rightarrow> (string \<times> string) option" where
  "unquoteLoop quote inp buf =
     (if inp = [] \<or> hd inp = quote then Some (buf, inp)
      else case UnquoteChar inp quote of
             None \<Rightarrow> None
           | Some (r, multibyte, rem) \<Rightarrow>
               if hd inp = LF then None
               else
                 let buf' = buf @ (if r < 0x80 \<or> \<not> multibyte then [char_of r] else EncodeRune r)
                 in if quote = SQ then Some (buf', rem) else unquoteLoop quote rem buf')"
  by pat_completeness auto
termination
  by (relation "measure (\<lambda>(quote, inp, buf). length inp)") (auto dest: UnquoteChar_shorter)

declare unquoteLoop.simps [simp del]

text \<open>
  \<open>strconv.unquote(in, true)\<close>: the unquoted literal at the start of \<open>in\<close> and the rest
  of the input; \<open>strconv.Unquote\<close> accepts it when nothing is left.
\<close>

definition unquote :: "string \<Rightarrow> (string \<times> string) option" where
  "unquote inp =
     (if length inp < 2 then None
      else
        let quote = hd inp in
        case Index (tl inp) [quote] of
          None \<Rightarrow> None
        | Some e \<Rightarrow>
            let end = e + 2; inner = take e (tl inp) in
            if quote = BQ then Some (filter (\<lambda>c. c \<noteq> CR) inner, drop end inp)
            else if quote = DQ \<or> quote = SQ then
              (if BSL \<notin> set (take end inp) \<and> LF \<notin> set (take end inp) \<and>
                  (if quote = DQ then ValidString inner
                   else 1 + snd (DecodeRuneInString inner) + 1 = end \<and>
                        (fst (DecodeRuneInString inner) \<noteq> RuneError \<or>
                         snd (DecodeRuneInString inner) \<noteq> 1))
               then Some (inner, drop end inp)
               else
                 case unquoteLoop quote (tl inp) [] of
                   None \<Rightarrow> None
                 | Some (buf, rest) \<Rightarrow>
                     if rest \<noteq> [] \<and> hd rest = quote then Some (buf, tl rest) else None)
            else None)"

definition Unquote :: "string \<Rightarrow> string option" where
  "Unquote s =
     (case unquote s of
        None \<Rightarrow> None
      | Some (out, rem) \<Rightarrow> if rem \<noteq> [] then None else Some out)"

subsection \<open>The fence pattern of \<open>regexp\<close>\<close>

text \<open>
  \<open>fenceRe\<close> is the regular expression \<^verbatim>\<open>(?s)```[a-zA-Z0-9_-]*\n(.*?)```\<close>.
  A match that starts at a given position is three backquotes, the longest run of tag
  characters (the next character must be a newline, which is no tag character), the
  newline, and then the shortest text up to the next three backquotes, which is group 1.
  \<open>fenceAt s\<close> is the match at the start of \<open>s\<close>: group 1 and what follows the match.
\<close>

definition fence :: string where
  "fence = [BQ, BQ, BQ]"

definition tagChar :: "char \<Rightarrow> bool" where
  "tagChar c \<longleftrightarrow>
     (0x61 \<le> byte c \<and> byte c \<le> 0x7A) \<or> (0x41 \<le> byte c \<and> byte c \<le> 0x5A) \<or>
     (0x30 \<le> byte c \<and> byte c \<le> 0x39) \<or> c = CHR ''_'' \<or> c = CHR ''-''"

definition fenceAt :: "string \<Rightarrow> (string \<times> string) option" where
  "fenceAt s =
     (if prefix fence s then
        (case dropWhile tagChar (drop 3 s) of
           [] \<Rightarrow> None
         | c # body \<Rightarrow>
             if c = LF then
               (case Index body fence of
                  None \<Rightarrow> None
                | Some k \<Rightarrow> Some (take k body, drop (k + 3) body))
             else None)
      else None)"

text \<open>The leftmost match of \<open>fenceRe\<close> in \<open>s\<close>: the text before it, group 1, the text after.\<close>

fun findFence :: "string \<Rightarrow> (string \<times> string \<times> string) option" where
  "findFence [] = None"
| "findFence (c # t) =
     (case fenceAt (c # t) of
        Some (inner, rest) \<Rightarrow> Some ([], inner, rest)
      | None \<Rightarrow> map_option (\<lambda>(p, inner, rest). (c # p, inner, rest)) (findFence t))"

definition fenceRe_MatchString :: "string \<Rightarrow> bool" where
  "fenceRe_MatchString s \<longleftrightarrow> findFence s \<noteq> None"

lemma fenceAt_shorter: "fenceAt s = Some (inner, rest) \<Longrightarrow> length rest < length s"
proof -
  assume a: "fenceAt s = Some (inner, rest)"
  then obtain c body k where
    d: "dropWhile tagChar (drop 3 s) = c # body" and k: "Index body fence = Some k"
    and r: "rest = drop (k + 3) body"
    unfolding fenceAt_def by (auto split: if_splits list.splits option.splits)
  have "length (dropWhile tagChar (drop 3 s)) \<le> length s"
    by (metis length_dropWhile_le length_drop diff_le_self le_trans)
  with d have "length body < length s" by simp
  with r show ?thesis by simp
qed

lemma findFence_shorter:
  "findFence s = Some (p, inner, rest) \<Longrightarrow> length rest < length s"
proof (induction s arbitrary: p)
  case Nil
  then show ?case by simp
next
  case (Cons c t)
  show ?case
  proof (cases "fenceAt (c # t)")
    case None
    with Cons.prems obtain p' where "findFence t = Some (p', inner, rest)"
      by auto
    then have "length rest < length t" by (rule Cons.IH)
    then show ?thesis by simp
  next
    case (Some a)
    with Cons.prems have "fenceAt (c # t) = Some (inner, rest)"
      by (cases a) auto
    then show ?thesis by (rule fenceAt_shorter)
  qed
qed

text \<open>
  \<open>fenceRe.ReplaceAllString(s, "$1")\<close>: every match, found from the left and not
  overlapping the one before, is replaced by its group 1.
\<close>

function fenceRe_ReplaceAllString :: "string \<Rightarrow> string" where
  "fenceRe_ReplaceAllString s =
     (case findFence s of
        None \<Rightarrow> s
      | Some (p, inner, rest) \<Rightarrow> p @ inner @ fenceRe_ReplaceAllString rest)"
  by pat_completeness auto
termination
  by (relation "measure length") (auto dest: findFence_shorter)

declare fenceRe_ReplaceAllString.simps [simp del]

section \<open>The output normalizer\<close>

text \<open>\<open>cleanModelOutput\<close> of \<open>main.go\<close>, statement by statement.\<close>

definition quoted :: "string \<Rightarrow> bool" where
  "quoted s \<longleftrightarrow>
     2 \<le> length s \<and> ((hd s = DQ \<and> last s = DQ) \<or> (hd s = SQ \<and> last s = SQ))"

definition cleanModelOutput :: "string \<Rightarrow> string" where
  "cleanModelOutput s0 =
     (let s1 = TrimSpace s0;
          s2 = (if quoted s1 then (case Unquote s1 of Some unq \<Rightarrow> unq | None \<Rightarrow> s1) else s1);
          s3 = (if fenceRe_MatchString s2 then fenceRe_ReplaceAllString s2 else s2);
          s4 = ReplaceAll s3 fence [];
          s5 = ReplaceAll s4 [CR, LF] [LF]
      in TrimSpace s5)"

section \<open>Label stripping\<close>

text \<open>
  \<open>stripLabels\<close>: the loop over the lines, with \<open>result\<close> as its accumulator.
  \<open>trimmed[6:]\<close> and \<open>trimmed[5:]\<close> are byte slices of \<open>trimmed\<close>; they are in
  range whenever the prefix test holds, since every rune that lowers to an ASCII
  letter has at least one byte.
\<close>

fun stripLabels_loop :: "string list \<Rightarrow> string list \<Rightarrow> string list" where
  "stripLabels_loop [] result = result"
| "stripLabels_loop (line # lines) result =
     (let trimmed = TrimSpace line in
      if HasPrefix (ToLower trimmed) ''title:'' then
        stripLabels_loop lines (result @ [TrimSpace (drop 6 trimmed)])
      else if HasPrefix (ToLower trimmed) ''body:'' then
        stripLabels_loop lines (result @ [TrimSpace (drop 5 trimmed)])
      else stripLabels_loop lines (result @ [line]))"

definition stripLabels :: "string \<Rightarrow> string" where
  "stripLabels s = Join (stripLabels_loop (Split s [LF]) []) [LF]"

section \<open>The program and its environment\<close>

subsection \<open>Values\<close>

text \<open>A Go \<open>error\<close> is known by its message.\<close>

datatype error = Err (msg: string)

record OllamaReq =
  Model :: string
  Prompt :: string
  Stream :: bool
  Options :: "(string \<times> rat) list"

record OllamaResp =
  resp_Model :: string
  CreatedAt :: string
  Response :: string
  Done :: bool

text \<open>
  What one call of \<open>decoder.Decode(&o)\<close> yields from the response body: the next
  JSON object, or an error on malformed input.  The end of the list is \<open>io.EOF\<close>.
\<close>

datatype item = Object OllamaResp | Malformed error

text \<open>
  An HTTP request as \<open>callOllama\<close> and \<open>checkOllama\<close> build it, with the timeout of
  the client that sends it (a \<open>time.Duration\<close>, in nanoseconds).  \<open>Payload\<close> is the
  value whose JSON encoding is the body.
\<close>

record Request =
  Method :: string
  URL :: string
  ContentType :: string
  Payload :: "OllamaReq option"
  Timeout :: int

text \<open>
  An HTTP response: the status code, the body as \<open>io.ReadAll\<close> reads it, the body as
  the JSON decoder reads it, and the result of closing it.
\<close>

record Response =
  StatusCode :: int
  Body :: string
  Decoded :: "item list"
  CloseErr :: "error option"

definition Second :: int where
  "Second = 1000000000"

definition defaultOllamaURL :: string where
  "defaultOllamaURL = ''http://localhost:11434/api/generate''"

subsection \<open>The world outside the process\<close>

text \<open>
  Everything the program reads from outside is a field of the environment: the answer
  to the \<open>n\<close>-th HTTP exchange, the output of \<open>git\<close>, and the failures of the
  operating system.  \<open>SetPath\<close> is \<open>url.Parse\<close> followed by the assignment of the
  path and \<open>String()\<close>.

  A write that fails may have written a part of its data.  \<open>os.WriteFile\<close> is
  \<open>OpenFile(name, O_WRONLY|O_CREATE|O_TRUNC, perm)\<close>, then \<open>f.Write(data)\<close>, then
  \<open>f.Close()\<close>, and returns the first error of the three.  When it fails,
  \<open>WriteFile_done\<close> is \<open>None\<close> if the opening has failed, and the number of bytes
  that \<open>Write\<close> has written into the created or truncated file otherwise.
  \<open>WriteString_done\<close> is the number of bytes that a failing \<open>f.WriteString\<close> has
  written.
\<close>

record env =
  Marshal_err :: "OllamaReq \<Rightarrow> error option"
  NewRequest_err :: "string \<Rightarrow> error option"
  SetPath :: "string \<Rightarrow> string \<Rightarrow> error + string"
  Do :: "nat \<Rightarrow> Request \<Rightarrow> error + Response"
  Git :: "string list \<Rightarrow> string \<times> error option"
  ReadFile_err :: "string \<Rightarrow> error option"
  WriteFile_err :: "string \<Rightarrow> error option"
  WriteFile_done :: "string \<Rightarrow> nat option"
  Stat_err :: "string \<Rightarrow> error option"
  OpenFile_err :: "string \<Rightarrow> error option"
  WriteString_err :: "string \<Rightarrow> error option"
  WriteString_done :: "string \<Rightarrow> nat"
  Close_err :: "string \<Rightarrow> error option"

text \<open>The calls that leave the process, in the order in which they are made.\<close>

datatype event =
    EvHTTP Request
  | EvGit "string list"
  | EvReadFile string
  | EvWriteFile string string
  | EvStat string
  | EvOpenFile string
  | EvWriteString string string
  | EvClose string

text \<open>
  A line on standard error is written directly, or by package \<open>log\<close> (which puts the
  date and time before it; the prefix is not modelled).
\<close>

datatype out = Write string | Log string

record state =
  files :: "string \<rightharpoonup> string"
  trace :: "event list"
  stdout :: string
  stderr :: "out list"

definition emit :: "event \<Rightarrow> state \<Rightarrow> state" where
  "emit e st = st\<lparr>trace := trace st @ [e]\<rparr>"

definition eprint :: "string \<Rightarrow> state \<Rightarrow> state" where
  "eprint m st = st\<lparr>stderr := stderr st @ [Write m]\<rparr>"

definition logPrintf :: "string \<Rightarrow> state \<Rightarrow> state" where
  "logPrintf m st = st\<lparr>stderr := stderr st @ [Log m]\<rparr>"

definition statusf :: "string \<Rightarrow> state \<Rightarrow> state" where
  "statusf m st = eprint (''[status] '' @ m @ [LF]) st"

definition isHTTP :: "event \<Rightarrow> bool" where
  "isHTTP e = (case e of EvHTTP _ \<Rightarrow> True | _ \<Rightarrow> False)"

subsection \<open>Formatting\<close>

function Itoa_nat :: "nat \<Rightarrow> string" where
  "Itoa_nat n =
     (if n < 10 then [char_of (0x30 + n)]
      else Itoa_nat (n div 10) @ [char_of (0x30 + n mod 10)])"
  by pat_completeness auto
termination
  by (relation "measure id") auto

declare Itoa_nat.simps [simp del]

definition Itoa :: "int \<Rightarrow> string" where
  "Itoa i = (if i < 0 then CHR ''-'' # Itoa_nat (nat (- i)) else Itoa_nat (nat i))"

definition showBool :: "bool \<Rightarrow> string" where
  "showBool b = (if b then ''true'' else ''false'')"

subsection \<open>The operating system\<close>

definition ReadFile :: "env \<Rightarrow> string \<Rightarrow> state \<Rightarrow> (string \<times> error option) \<times> state" where
  "ReadFile E path st =
     (let st1 = emit (EvReadFile path) st in
      case ReadFile_err E path of
        Some e \<Rightarrow> (([], Some e), st1)
      | None \<Rightarrow>
          (case files st1 path of
             None \<Rightarrow> (([], Some (Err (''open '' @ path @ '': no such file or directory''))), st1)
           | Some data \<Rightarrow> ((data, None), st1)))"

text \<open>
  \<open>os.WriteFile\<close> creates or truncates the file and writes the data.  A failure of its
  opening leaves the file as it was; a later failure leaves the file with the bytes
  written before it.
\<close>

definition WriteFile :: "env \<Rightarrow> string \<Rightarrow> string \<Rightarrow> state \<Rightarrow> error option \<times> state" where
  "WriteFile E path data st =
     (let st1 = emit (EvWriteFile path data) st in
      case WriteFile_err E path of
        Some e \<Rightarrow>
          (case WriteFile_done E path of
             None \<Rightarrow> (Some e, st1)
           | Some n \<Rightarrow> (Some e, st1\<lparr>files := (files st1)(path \<mapsto> take n data)\<rparr>))
      | None \<Rightarrow> (None, st1\<lparr>files := (files st1)(path \<mapsto> data)\<rparr>))"

definition Stat :: "env \<Rightarrow> string \<Rightarrow> state \<Rightarrow> error option \<times> state" where
  "Stat E path st =
     (let st1 = emit (EvStat path) st in
      case Stat_err E path of
        Some e \<Rightarrow> (Some e, st1)
      | None \<Rightarrow>
          (case files st1 path of
             None \<Rightarrow> (Some (Err (''stat '' @ path @ '': no such file or directory'')), st1)
           | Some _ \<Rightarrow> (None, st1)))"

text \<open>\<open>os.OpenFile(path, O_APPEND|O_WRONLY, 0644)\<close>: the file is not created.\<close>

definition OpenFile :: "env \<Rightarrow> string \<Rightarrow> state \<Rightarrow> error option \<times> state" where
  "OpenFile E path st =
     (let st1 = emit (EvOpenFile path) st in
      case OpenFile_err E path of
        Some e \<Rightarrow> (Some e, st1)
      | None \<Rightarrow>
          (case files st1 path of
             None \<Rightarrow> (Some (Err (''open '' @ path @ '': no such file or directory'')), st1)
           | Some _ \<Rightarrow> (None, st1)))"

text \<open>
  \<open>f.WriteString\<close> on a file opened for appending: the bytes written go after those
  the file holds.
\<close>

definition WriteString :: "env \<Rightarrow> string \<Rightarrow> string \<Rightarrow> state \<Rightarrow> error option \<times> state" where
  "WriteString E path data st =
     (let st1 = emit (EvWriteString path data) st in
      case WriteString_err E path of
        Some e \<Rightarrow>
          (Some e, st1\<lparr>files := (files st1)(path \<mapsto>
                             (case files st1 path of
                                None \<Rightarrow> take (WriteString_done E path) data
                              | Some old \<Rightarrow> old @ take (WriteString_done E path) data))\<rparr>)
      | None \<Rightarrow>
          (None, st1\<lparr>files := (files st1)(path \<mapsto> (case files st1 path of
                                                         None \<Rightarrow> data
                                                       | Some old \<Rightarrow> old @ data))\<rparr>))"

subsection \<open>The backend client\<close>

text \<open>
  The decoding loop of \<open>callOllama\<close>: \<open>result += o.Response\<close> for every decoded
  object, until \<open>io.EOF\<close>; any other error leaves the function.
\<close>

fun decode_loop :: "item list \<Rightarrow> string \<Rightarrow> string \<times> error option" where
  "decode_loop [] result = (result, None)"
| "decode_loop (Malformed e # rest) result =
     ([], Some (Err (''failed to decode response: '' @ msg e)))"
| "decode_loop (Object obj # rest) result = decode_loop rest (result @ Response obj)"

text \<open>The deferred \<open>resp.Body.Close()\<close>: a failure is logged, nothing else.\<close>

definition closeBody :: "string \<Rightarrow> Response \<Rightarrow> state \<Rightarrow> state" where
  "closeBody what resp st =
     (case CloseErr resp of
        None \<Rightarrow> st
      | Some cerr \<Rightarrow> logPrintf (''warning: failed to close '' @ what @ '': '' @ msg cerr) st)"

text \<open>
  \<open>callOllama(url, req)\<close>.  Go's pair \<open>(string, error)\<close> is a pair of a string and an
  optional error.  The exchange is the \<open>n\<close>-th of the run, \<open>n\<close> being the number of
  requests sent before.
\<close>

definition callOllama ::
  "env \<Rightarrow> string \<Rightarrow> OllamaReq \<Rightarrow> state \<Rightarrow> (string \<times> error option) \<times> state" where
  "callOllama E url req st =
     (case Marshal_err E req of
        Some err \<Rightarrow> (([], Some (Err (''failed to marshal request: '' @ msg err))), st)
      | None \<Rightarrow>
          let client_Timeout = 60 * Second in
          (case NewRequest_err E url of
             Some err \<Rightarrow> (([], Some err), st)
           | None \<Rightarrow>
               let r = \<lparr>Method = ''POST'', URL = url, ContentType = ''application/json'',
                        Payload = Some req, Timeout = client_Timeout\<rparr>;
                   n = length (filter isHTTP (trace st));
                   st1 = emit (EvHTTP r) st
               in
               (case Do E n r of
                  Inl err \<Rightarrow> (([], Some err), st1)
                | Inr resp \<Rightarrow>
                    if 400 \<le> StatusCode resp then
                      (([], Some (Err (''ollama error: status='' @ Itoa (StatusCode resp)
                                       @ '' body='' @ Body resp))),
                       closeBody ''response body'' resp st1)
                    else
                      (case decode_loop (Decoded resp) [] of
                         (_, Some err) \<Rightarrow> (([], Some err), closeBody ''response body'' resp st1)
                       | (result, None) \<Rightarrow>
                           ((TrimSpace (cleanModelOutput result), None),
                            closeBody ''response body'' resp st1)))))"

subsection \<open>The availability probe and the diff\<close>

definition checkOllama :: "env \<Rightarrow> string \<Rightarrow> state \<Rightarrow> error option \<times> state" where
  "checkOllama E ollamaURL st =
     (case SetPath E ollamaURL ''/api/tags'' of
        Inl err \<Rightarrow> (Some (Err (''invalid ollama URL: '' @ msg err)), st)
      | Inr u \<Rightarrow>
          let req = \<lparr>Method = ''GET'', URL = u, ContentType = [], Payload = None,
                     Timeout = 3 * Second\<rparr>;
              n = length (filter isHTTP (trace st));
              st1 = emit (EvHTTP req) st
          in
          (case Do E n req of
             Inl err \<Rightarrow>
               (Some (Err (''ollama does not appear to be running; start it with ''
                           @ [SQ] @ ''ollama serve'' @ [SQ])), st1)
           | Inr resp \<Rightarrow>
               if 400 \<le> StatusCode resp then
                 (Some (Err (''ollama tags endpoint returned status '' @ Itoa (StatusCode resp)
                             @ '': '' @ TrimSpace (Body resp))),
                  closeBody ''tags response body'' resp st1)
               else (None, closeBody ''tags response body'' resp st1)))"

definition getStagedDiff :: "env \<Rightarrow> state \<Rightarrow> (string \<times> error option) \<times> state" where
  "getStagedDiff E st =
     (let st1 = emit (EvGit [''diff'', ''--staged'']) st in
      case Git E [''diff'', ''--staged''] of
        (out, Some err) \<Rightarrow>
          (([], Some (Err (''git --staged failed: '' @ msg err @ ''; output='' @ out))), st1)
      | (out, None) \<Rightarrow>
          if TrimSpace out = [] then
            (let st2 = emit (EvGit [''diff'']) st1 in
             case Git E [''diff''] of
               (out2, Some err2) \<Rightarrow>
                 (([], Some (Err (''git diff failed: '' @ msg err2 @ ''; output='' @ out2))), st2)
             | (out2, None) \<Rightarrow> ((out2, None), st2))
          else ((out, None), st1))"

subsection \<open>\<open>main\<close>\<close>

text \<open>The command line, as \<open>flag.Parse\<close> leaves it.\<close>

record Flags =
  ollamaURL :: string
  summarizerModel :: string
  styleModel :: string
  tone :: string
  hookFile :: string
  forceWrite :: bool
  debug :: bool
  noLabels :: bool
  saveSummary :: string
  loadSummary :: string

definition unlines :: "string list \<Rightarrow> string" where
  "unlines ls = concat (map (\<lambda>l. l @ [LF]) ls)"

definition summaryPrompt :: "string \<Rightarrow> string" where
  "summaryPrompt diff =
     unlines
       [''Summarize the following git diff with strict factual accuracy.'',
        ''Produce TWO sections:'',
        ''1. A short commit title (max 60 chars)'',
        ''2. A 3-40 line commit body describing the key changes.'',
        [],
        ''Rules:'',
        ''- Title should be imperative tense.'',
        ''- Body should describe files, functions, and intent.'',
        ''- Do NOT invent or hallucinate.'',
        ''- Keep it concise.'',
        [],
        ''Diff:'',
        diff]
     @ unlines [[], [], ''OUTPUT FORMAT:'', ''TITLE (one line)'', ''BLANK LINE'',
                ''BODY (2-4 lines)'']"

definition stylePrompt :: "string \<Rightarrow> string \<Rightarrow> string" where
  "stylePrompt tn summ =
     unlines
       [''Rewrite the following commit (title + body) but:'',
        ''- KEEP the factual content *exactly*.'',
        ''- Apply this tone: '' @ tn,
        ''- Make it wild/funny/chaotic while readable.'',
        ''- Maintain title + body structure.'',
        ''- 1 title line, 2-40 body lines.'',
        [],
        ''Original commit:'',
        summ]"

definition summarizerReq :: "Flags \<Rightarrow> string \<Rightarrow> OllamaReq" where
  "summarizerReq fl prompt =
     \<lparr>Model = summarizerModel fl, Prompt = prompt, Stream = False,
      Options = [(''temperature'', 0)]\<rparr>"

definition styleReq :: "Flags \<Rightarrow> string \<Rightarrow> OllamaReq" where
  "styleReq fl prompt =
     \<lparr>Model = styleModel fl, Prompt = prompt, Stream = False,
      Options = [(''temperature'', 9 / 10)]\<rparr>"

text \<open>
  The retry loop \<open>for attempt := 1; attempt <= 2; attempt++\<close>, with \<open>sum\<close> and
  \<open>lastErr\<close> as the variables it assigns.  \<open>attempt_report\<close> is the rest of the
  body after the call: the debug log line and \<open>continue\<close> on an error, the status
  line otherwise.  Both ways lead to the next iteration.
\<close>

definition attempt_report :: "Flags \<Rightarrow> nat \<Rightarrow> string \<times> error option \<Rightarrow> state \<Rightarrow> state" where
  "attempt_report fl attempt r st =
     (case snd r of
        Some lastErr \<Rightarrow>
          (if debug fl then
             logPrintf (''summarizer call error (attempt '' @ Itoa_nat attempt @ ''): ''
                        @ msg lastErr) st
           else st)
      | None \<Rightarrow> statusf (''Summary received (attempt '' @ Itoa_nat attempt @ '')'') st)"

function summarizer_loop ::
  "env \<Rightarrow> Flags \<Rightarrow> string \<Rightarrow> string \<Rightarrow> nat \<Rightarrow> string \<times> error option \<Rightarrow> state
   \<Rightarrow> (string \<times> error option) \<times> state" where
  "summarizer_loop E fl url prompt attempt vars st =
     (if attempt \<le> 2 then
        (case callOllama E url (summarizerReq fl prompt) st of
           (r, st1) \<Rightarrow>
             summarizer_loop E fl url prompt (Suc attempt) r (attempt_report fl attempt r st1))
      else (vars, st))"
  by pat_completeness auto
termination
  by (relation "measure (\<lambda>(E, fl, url, prompt, attempt, vars, st). 3 - attempt)") auto

declare summarizer_loop.simps [simp del]

text \<open>
  \<open>main\<close> is split at its stages.  A stage returns \<open>Inl code\<close> where the source calls
  \<open>os.Exit(code)\<close>, and \<open>Inr\<close> the value it hands on otherwise.
\<close>

definition debugLog :: "Flags \<Rightarrow> string \<Rightarrow> state \<Rightarrow> state" where
  "debugLog fl m st = (if debug fl then logPrintf m st else st)"

text \<open>The branch \<open>loadSummary != ""\<close>.\<close>

definition loadStage :: "env \<Rightarrow> Flags \<Rightarrow> state \<Rightarrow> (nat + string) \<times> state" where
  "loadStage E fl st =
     (let st1 = statusf (''Loading summary from '' @ loadSummary fl) st in
      case ReadFile E (loadSummary fl) st1 of
        ((data, Some err), st2) \<Rightarrow>
          (Inl 2, debugLog fl (''readfile error: '' @ msg err)
                    (eprint (''Error reading summary file: '' @ msg err @ [LF]) st2))
      | ((data, None), st2) \<Rightarrow>
          (Inr data, statusf (''Summary loaded ('' @ Itoa_nat (length data) @ '' bytes)'') st2))"

text \<open>Saving the summary: a failure is a warning.\<close>

definition saveStage :: "env \<Rightarrow> Flags \<Rightarrow> string \<Rightarrow> state \<Rightarrow> state" where
  "saveStage E fl summ st =
     (if saveSummary fl \<noteq> [] then
        (let st1 = statusf (''Saving summary to '' @ saveSummary fl) st in
         case WriteFile E (saveSummary fl) summ st1 of
           (Some err, st2) \<Rightarrow>
             debugLog fl (''save summary error: '' @ msg err)
               (eprint (''Warning: failed to save summary: '' @ msg err @ [LF]) st2)
         | (None, st2) \<Rightarrow> statusf ''Summary saved successfully'' st2)
      else st)"

text \<open>The normal flow: probe, diff, summarizer with its retry, save.\<close>

definition summarizeStage :: "env \<Rightarrow> Flags \<Rightarrow> string \<Rightarrow> state \<Rightarrow> (nat + string) \<times> state" where
  "summarizeStage E fl url st =
     (let st1 = statusf (''Checking Ollama availability at '' @ url) st in
      case checkOllama E url st1 of
        (Some err, st2) \<Rightarrow>
          (Inl 1, debugLog fl (''checkOllama error: '' @ msg err) (eprint (msg err @ [LF]) st2))
      | (None, st2) \<Rightarrow>
          (let st3 = statusf ''Gathering git diff (staged or unstaged)''
                       (statusf ''Ollama reachable'' st2) in
           case getStagedDiff E st3 of
             ((diff, Some err), st4) \<Rightarrow>
               (Inl 2, debugLog fl (''getStagedDiff error: '' @ msg err)
                         (eprint (''Error reading git diff: '' @ msg err @ [LF]) st4))
           | ((diff, None), st4) \<Rightarrow>
               (let st5 = statusf (''Diff collected ('' @ Itoa_nat (length diff) @ '' bytes)'') st4;
                    st6 = statusf (''Calling summarizer model '' @ [SQ] @ summarizerModel fl @ [SQ]) st5
                in
                case summarizer_loop E fl url (summaryPrompt diff) 1 ([], None) st6 of
                  ((summ, Some lastErr), st7) \<Rightarrow>
                    (Inl 3, eprint (''Summarizer error: '' @ msg lastErr @ [LF]) st7)
                | ((summ, None), st7) \<Rightarrow> (Inr summ, saveStage E fl summ st7))))"

text \<open>
  The message sink, \<open>if hookFile != ""\<close>.  The result is the exit code, if the
  process exits here, and whether the deferred \<open>f.Close()\<close> is pending.
\<close>

definition suggestion :: "string \<Rightarrow> string" where
  "suggestion finalMsg =
     [LF] @ ''# Suggested commit message (auto-generated):'' @ [LF] @ finalMsg @ [LF]"

definition hookStage :: "env \<Rightarrow> Flags \<Rightarrow> string \<Rightarrow> state \<Rightarrow> (nat option \<times> bool) \<times> state" where
  "hookStage E fl finalMsg st =
     (if hookFile fl \<noteq> [] then
        (let st1 =
               (if forceWrite fl then
                  statusf (''Writing suggested message to '' @ hookFile fl @ '' (overwrite)'') st
                else
                  (case Stat E (hookFile fl) st of
                     (None, s) \<Rightarrow> statusf (''Appending suggested message to '' @ hookFile fl) s
                   | (Some _, s) \<Rightarrow> statusf (''Writing suggested message to '' @ hookFile fl) s))
         in
         case Stat E (hookFile fl) st1 of
           (serr, st2) \<Rightarrow>
             if serr = None \<and> \<not> forceWrite fl then
               (case OpenFile E (hookFile fl) st2 of
                  (Some err, st3) \<Rightarrow>
                    ((Some 5, False),
                     debugLog fl (''openfile error: '' @ msg err)
                       (eprint (''failed to open hook file for append: '' @ msg err @ [LF]) st3))
                | (None, st3) \<Rightarrow>
                    (case WriteString E (hookFile fl) (suggestion finalMsg) st3 of
                       (Some err, st4) \<Rightarrow>
                         ((Some 6, True),
                          debugLog fl (''write error: '' @ msg err)
                            (eprint (''failed to write to hook file: '' @ msg err @ [LF]) st4))
                     | (None, st4) \<Rightarrow>
                         ((None, True), statusf (''Hook file updated: '' @ hookFile fl) st4)))
             else
               (case WriteFile E (hookFile fl) (finalMsg @ [LF]) st2 of
                  (Some err, st3) \<Rightarrow>
                    ((Some 7, False),
                     debugLog fl (''writefile error: '' @ msg err)
                       (eprint (''failed to write hook file: '' @ msg err @ [LF]) st3))
                | (None, st3) \<Rightarrow>
                    ((None, False), statusf (''Hook file updated: '' @ hookFile fl) st3)))
      else ((None, False), st))"

text \<open>
  The deferred \<open>f.Close()\<close> of the hook file runs when \<open>main\<close> returns; \<open>os.Exit\<close>
  does not run it.
\<close>

definition closeHook :: "env \<Rightarrow> Flags \<Rightarrow> state \<Rightarrow> state" where
  "closeHook E fl st =
     (let st1 = emit (EvClose (hookFile fl)) st in
      case Close_err E (hookFile fl) of
        None \<Rightarrow> st1
      | Some cerr \<Rightarrow> logPrintf (''warning: failed to close hook file: '' @ msg cerr) st1)"

text \<open>The styling stage and what follows it.\<close>

definition styleStage :: "env \<Rightarrow> Flags \<Rightarrow> string \<Rightarrow> string \<Rightarrow> state \<Rightarrow> nat \<times> state" where
  "styleStage E fl url summ st =
     (let st1 = statusf (''Calling style model '' @ [SQ] @ styleModel fl @ [SQ]
                         @ '' with tone: '' @ tone fl) st in
      case callOllama E url (styleReq fl (stylePrompt (tone fl) summ)) st1 of
        ((finalMsg, Some err), st2) \<Rightarrow>
          (4, debugLog fl (''styling call error: '' @ msg err)
                (eprint (''Styling model error: '' @ msg err @ [LF]) st2))
      | ((finalMsg0, None), st2) \<Rightarrow>
          (let st3 = statusf ''Final message generated'' st2;
               finalMsg1 = TrimSpace finalMsg0;
               finalMsg = (if noLabels fl then stripLabels finalMsg1 else finalMsg1);
               st4 = st3\<lparr>stdout := stdout st3 @ finalMsg @ [LF]\<rparr>
           in
           case hookStage E fl finalMsg st4 of
             ((Some code, _), st5) \<Rightarrow> (code, st5)
           | ((None, opened), st5) \<Rightarrow>
               (let st6 = statusf ''Done'' st5
                in (0, if opened then closeHook E fl st6 else st6))))"

definition debugBanner :: "Flags \<Rightarrow> string \<Rightarrow> string" where
  "debugBanner fl url =
     ''debug: ollamaURL='' @ url @ '' summarizerModel='' @ summarizerModel fl
     @ '' styleModel='' @ styleModel fl @ '' tone='' @ tone fl @ '' hookFile='' @ hookFile fl
     @ '' force='' @ showBool (forceWrite fl) @ '' noLabels='' @ showBool (noLabels fl)
     @ '' saveSummary='' @ saveSummary fl @ '' loadSummary='' @ loadSummary fl"

text \<open>
  \<open>main\<close>: the exit code of the process and the state it leaves.  \<open>endpoint\<close> is
  \<open>ollamaURL\<close> after \<open>if ollamaURL == "" { ollamaURL = defaultOllamaURL }\<close>.
\<close>

definition endpoint :: "Flags \<Rightarrow> string" where
  "endpoint fl = (if ollamaURL fl = [] then defaultOllamaURL else ollamaURL fl)"

definition main :: "env \<Rightarrow> Flags \<Rightarrow> state \<Rightarrow> nat \<times> state" where
  "main E fl st0 =
     (let url = endpoint fl;
          st = debugLog fl (debugBanner fl url) st0
      in
      case (if loadSummary fl \<noteq> [] then loadStage E fl st else summarizeStage E fl url st) of
        (Inl code, st1) \<Rightarrow> (code, st1)
      | (Inr summ, st1) \<Rightarrow> styleStage E fl url summ st1)"

section \<open>Points of observation\<close>

text \<open>
  The theorems below speak about a run of \<open>main\<close> through the calls it makes, in their
  order, each started in the state the call before it has left.  Lines on standard error
  do not change what a call returns: two states with the same files and the same trace
  are the same world.
\<close>

definition same_world :: "state \<Rightarrow> state \<Rightarrow> bool" where
  "same_world st st' \<longleftrightarrow> files st = files st' \<and> trace st = trace st'"

text \<open>The load path: the read of the summary file.\<close>

definition loaded :: "env \<Rightarrow> Flags \<Rightarrow> state \<Rightarrow> (string \<times> error option) \<times> state" where
  "loaded E fl st0 = ReadFile E (loadSummary fl) st0"

text \<open>The normal flow: the probe, the diff, and the two attempts of the summarizer.\<close>

definition probed :: "env \<Rightarrow> Flags \<Rightarrow> state \<Rightarrow> error option \<times> state" where
  "probed E fl st0 = checkOllama E (endpoint fl) st0"

definition diffed :: "env \<Rightarrow> Flags \<Rightarrow> state \<Rightarrow> (string \<times> error option) \<times> state" where
  "diffed E fl st0 = getStagedDiff E (snd (probed E fl st0))"

definition attempt1 :: "env \<Rightarrow> Flags \<Rightarrow> state \<Rightarrow> (string \<times> error option) \<times> state" where
  "attempt1 E fl st0 =
     callOllama E (endpoint fl) (summarizerReq fl (summaryPrompt (fst (fst (diffed E fl st0)))))
       (snd (diffed E fl st0))"

definition attempt2 :: "env \<Rightarrow> Flags \<Rightarrow> state \<Rightarrow> (string \<times> error option) \<times> state" where
  "attempt2 E fl st0 =
     callOllama E (endpoint fl) (summarizerReq fl (summaryPrompt (fst (fst (diffed E fl st0)))))
       (snd (attempt1 E fl st0))"

text \<open>
  The summary is there when the stage that makes it has not left the process; it is the
  text \<open>main\<close> holds in \<open>sum\<close> then, and \<open>summarized\<close> is the state in which the styling
  stage starts.
\<close>

definition summary_ready :: "env \<Rightarrow> Flags \<Rightarrow> state \<Rightarrow> bool" where
  "summary_ready E fl st0 \<longleftrightarrow>
     (if loadSummary fl \<noteq> [] then snd (fst (loaded E fl st0)) = None
      else fst (probed E fl st0) = None \<and> snd (fst (diffed E fl st0)) = None \<and>
           snd (fst (attempt2 E fl st0)) = None)"

definition summary :: "env \<Rightarrow> Flags \<Rightarrow> state \<Rightarrow> string" where
  "summary E fl st0 =
     (if loadSummary fl \<noteq> [] then fst (fst (loaded E fl st0)) else fst (fst (attempt2 E fl st0)))"

definition summarized :: "env \<Rightarrow> Flags \<Rightarrow> state \<Rightarrow> state" where
  "summarized E fl st0 =
     (if loadSummary fl \<noteq> [] then snd (loaded E fl st0)
      else saveStage E fl (summary E fl st0) (snd (attempt2 E fl st0)))"

text \<open>The styling call, the final message, the message sink and the end of \<open>main\<close>.\<close>

definition styled :: "env \<Rightarrow> Flags \<Rightarrow> state \<Rightarrow> (string \<times> error option) \<times> state" where
  "styled E fl st0 =
     callOllama E (endpoint fl) (styleReq fl (stylePrompt (tone fl) (summary E fl st0)))
       (summarized E fl st0)"

definition finalMessage :: "env \<Rightarrow> Flags \<Rightarrow> state \<Rightarrow> string" where
  "finalMessage E fl st0 =
     (let finalMsg = TrimSpace (fst (fst (styled E fl st0)))
      in if noLabels fl then stripLabels finalMsg else finalMsg)"

definition sunk :: "env \<Rightarrow> Flags \<Rightarrow> state \<Rightarrow> (nat option \<times> bool) \<times> state" where
  "sunk E fl st0 = hookStage E fl (finalMessage E fl st0) (snd (styled E fl st0))"

definition finished :: "env \<Rightarrow> Flags \<Rightarrow> state \<Rightarrow> state" where
  "finished E fl st0 =
     (if fst (fst (sunk E fl st0)) = None \<and> snd (fst (sunk E fl st0))
      then closeHook E fl (snd (sunk E fl st0)) else snd (sunk E fl st0))"

text \<open>The world in which the process ends: the state of the last call it has made.\<close>

definition final_world :: "env \<Rightarrow> Flags \<Rightarrow> state \<Rightarrow> state" where
  "final_world E fl st0 =
     (if loadSummary fl \<noteq> [] \<and> snd (fst (loaded E fl st0)) \<noteq> None then snd (loaded E fl st0)
      else if loadSummary fl = [] \<and> fst (probed E fl st0) \<noteq> None then snd (probed E fl st0)
      else if loadSummary fl = [] \<and> snd (fst (diffed E fl st0)) \<noteq> None then snd (diffed E fl st0)
      else if loadSummary fl = [] \<and> snd (fst (attempt2 E fl st0)) \<noteq> None then snd (attempt2 E fl st0)
      else if snd (fst (styled E fl st0)) \<noteq> None then snd (styled E fl st0)
      else finished E fl st0)"

text \<open>Kinds of events.  \<open>post url req\<close> is the request that \<open>callOllama\<close> sends.\<close>

definition post :: "string \<Rightarrow> OllamaReq \<Rightarrow> Request" where
  "post url req = \<lparr>Method = ''POST'', URL = url, ContentType = ''application/json'',
                    Payload = Some req, Timeout = 60 * Second\<rparr>"

definition fileEvent :: "event \<Rightarrow> bool" where
  "fileEvent e = (case e of EvHTTP _ \<Rightarrow> False | EvGit _ \<Rightarrow> False | _ \<Rightarrow> True)"

definition isProbe :: "event \<Rightarrow> bool" where
  "isProbe e = (case e of EvHTTP r \<Rightarrow> Method r = ''GET'' | _ \<Rightarrow> False)"

definition isGit :: "event \<Rightarrow> bool" where
  "isGit e = (case e of EvGit _ \<Rightarrow> True | _ \<Rightarrow> False)"

text \<open>A call of the summarizer: a request for the summarizer model at temperature 0.\<close>

definition isSummarizerCall :: "Flags \<Rightarrow> event \<Rightarrow> bool" where
  "isSummarizerCall fl e =
     (case e of
        EvHTTP r \<Rightarrow>
          (case Payload r of
             Some q \<Rightarrow> Model q = summarizerModel fl \<and> Options q = [(''temperature'', 0)]
           | None \<Rightarrow> False)
      | _ \<Rightarrow> False)"

text \<open>A response stream with other \<open>done\<close> flags.\<close>

fun redone :: "(OllamaResp \<Rightarrow> bool) \<Rightarrow> item \<Rightarrow> item" where
  "redone f (Object obj) = Object (obj\<lparr>Done := f obj\<rparr>)"
| "redone f (Malformed e) = Malformed e"

text \<open>The number of backquotes at the start of a string.\<close>

definition ticks :: "string \<Rightarrow> nat" where
  "ticks s = length (takeWhile (\<lambda>c. c = BQ) s)"

section \<open>Sample worlds\<close>

text \<open>
  Concrete environments, command lines and states, on which the theorems are tried:
  a backend that answers every exchange as \<open>answer\<close> says and an operating system
  without failures, the default flags of \<open>main\<close>, and the state at the start of the
  process.
\<close>

definition chunk :: "string \<Rightarrow> bool \<Rightarrow> item" where
  "chunk frag fin = Object \<lparr>resp_Model = [], CreatedAt = [], Response = frag, Done = fin\<rparr>"

definition reply :: "item list \<Rightarrow> Response" where
  "reply items = \<lparr>StatusCode = 200, Body = [], Decoded = items, CloseErr = None\<rparr>"

definition backend :: "(nat \<Rightarrow> Request \<Rightarrow> error + Response) \<Rightarrow> env" where
  "backend answer =
     \<lparr>Marshal_err = (\<lambda>_. None), NewRequest_err = (\<lambda>_. None),
      SetPath = (\<lambda>u p. Inr (''http://localhost:11434'' @ p)),
      Do = answer,
      Git = (\<lambda>args. (''+line'', None)),
      ReadFile_err = (\<lambda>_. None), WriteFile_err = (\<lambda>_. None), WriteFile_done = (\<lambda>_. None),
      Stat_err = (\<lambda>_. None), OpenFile_err = (\<lambda>_. None), WriteString_err = (\<lambda>_. None),
      WriteString_done = (\<lambda>_. 0), Close_err = (\<lambda>_. None)\<rparr>"

definition defaults :: Flags where
  "defaults =
     \<lparr>ollamaURL = [], summarizerModel = ''gemma3:4B'', styleModel = ''mistral:7b'',
      tone = ''chaotic, wild, funny'', hookFile = [], forceWrite = False, debug = False,
      noLabels = False, saveSummary = [], loadSummary = []\<rparr>"

definition start :: "(string \<rightharpoonup> string) \<Rightarrow> state" where
  "start fs = \<lparr>files = fs, trace = [], stdout = [], stderr = []\<rparr>"

text \<open>Backends for the scenarios of the claims.\<close>

definition two_summaries :: env where
  "two_summaries =
     backend (\<lambda>n r. if n = 1 then Inr (reply [chunk ''first'' True])
                    else if n = 2 then Inr (reply [chunk ''second'' True])
                    else Inr (reply [chunk ''Title: x'' True]))"




section \<open>Facts about the string functions\<close>

subsection \<open>Trimming\<close>

lemma TrimLeft_suffix: "suffix (TrimLeft s) s"
proof (induction s rule: TrimLeft.induct)
  case (1 s)
  show ?case
  proof (cases "leadingSpace s")
    case None
    then show ?thesis by simp
  next
    case (Some p)
    with 1 have "suffix (TrimLeft (drop (length p) s)) (drop (length p) s)" by simp
    then have "suffix (TrimLeft (drop (length p) s)) s"
      using suffix_drop suffix_order.trans by blast
    with Some show ?thesis by simp
  qed
qed

lemma TrimRight_prefix: "prefix (TrimRight s) s"
proof (induction s rule: TrimRight.induct)
  case (1 s)
  show ?case
  proof (cases "trailingSpace s")
    case None
    then show ?thesis by simp
  next
    case (Some p)
    with 1 have "prefix (TrimRight (take (length s - length p) s)) (take (length s - length p) s)"
      by simp
    then have "prefix (TrimRight (take (length s - length p) s)) s"
      using take_is_prefix prefix_order.trans by blast
    with Some show ?thesis by simp
  qed
qed

lemma leadingSpace_TrimLeft: "leadingSpace (TrimLeft s) = None"
proof (induction s rule: TrimLeft.induct)
  case (1 s)
  then show ?case by (cases "leadingSpace s") simp_all
qed

lemma trailingSpace_TrimRight: "trailingSpace (TrimRight s) = None"
proof (induction s rule: TrimRight.induct)
  case (1 s)
  then show ?case by (cases "trailingSpace s") simp_all
qed

lemma leadingSpace_prefix:
  assumes "leadingSpace s = None" and "prefix u s"
  shows "leadingSpace u = None"
proof -
  from assms(1) have "\<forall>p \<in> set spaceRunes. \<not> prefix p s"
    by (simp add: leadingSpace_def find_None_iff)
  with assms(2) have "\<forall>p \<in> set spaceRunes. \<not> prefix p u"
    using prefix_order.trans by blast
  then show ?thesis by (simp add: leadingSpace_def find_None_iff)
qed

lemma TrimSpace_trimmed:
  "leadingSpace (TrimSpace s) = None" "trailingSpace (TrimSpace s) = None"
  unfolding TrimSpace_def
  by (rule leadingSpace_prefix [OF leadingSpace_TrimLeft TrimRight_prefix])
     (rule trailingSpace_TrimRight)

lemma TrimSpace_fixed:
  "leadingSpace s = None \<Longrightarrow> trailingSpace s = None \<Longrightarrow> TrimSpace s = s"
  by (simp add: TrimSpace_def)

lemma TrimSpace_idem: "TrimSpace (TrimSpace s) = TrimSpace s"
  by (rule TrimSpace_fixed) (rule TrimSpace_trimmed)+

lemma TrimSpace_sublist: "sublist (TrimSpace s) s"
proof -
  obtain ss where "TrimLeft s = TrimSpace s @ ss"
    using TrimRight_prefix [of "TrimLeft s"] by (auto simp: TrimSpace_def prefix_def)
  moreover obtain ps where "s = ps @ TrimLeft s"
    using TrimLeft_suffix [of s] by (auto simp: suffix_def)
  ultimately have "s = ps @ TrimSpace s @ ss" by simp
  then show ?thesis unfolding sublist_def by blast
qed

lemma sublist_trans: "sublist xs ys \<Longrightarrow> sublist ys zs \<Longrightarrow> sublist xs zs"
  unfolding sublist_def by (metis append.assoc)

lemma findFence_no_fence: "\<not> sublist fence s \<Longrightarrow> findFence s = None"
proof (induction s)
  case Nil
  then show ?case by simp
next
  case (Cons c t)
  then have "\<not> prefix fence (c # t)" and "\<not> sublist fence t"
    by (simp_all add: sublist_Cons_right)
  then show ?case using Cons.IH by (simp add: fenceAt_def)
qed

lemma ReplaceAll_absent: "\<not> sublist old s \<Longrightarrow> ReplaceAll s old new = s"
proof (induction s)
  case Nil
  show ?case by (rule ReplaceAll_Nil)
next
  case (Cons c t)
  then have np: "\<not> prefix old (c # t)" and nt: "\<not> sublist old t"
    by (simp_all add: sublist_Cons_right)
  from np have "old \<noteq> []" by auto
  with np Cons.IH [OF nt] show ?case by (simp add: ReplaceAll_skip)
qed

subsection \<open>Backquotes\<close>

lemma prefix_fence_ticks: "prefix fence s \<longleftrightarrow> 3 \<le> ticks s"
proof (cases s)
  case Nil
  then show ?thesis by (simp add: fence_def ticks_def)
next
  case (Cons a t)
  note s1 = this
  show ?thesis
  proof (cases t)
    case Nil
    with s1 show ?thesis by (simp add: fence_def ticks_def)
  next
    case (Cons b u)
    with s1 show ?thesis by (cases u) (auto simp: fence_def ticks_def)
  qed
qed

lemma ticks_drop3: "prefix fence s \<Longrightarrow> ticks s = 3 + ticks (drop 3 s)"
  by (auto simp: fence_def ticks_def prefix_def)

lemma fence_facts: "length fence = 3" "fence \<noteq> []"
  by (simp_all add: fence_def)

lemma ticks_remove_fences: "ticks (ReplaceAll s fence []) = ticks s mod 3"
proof (induction s rule: length_induct)
  case (1 s)
  show ?case
  proof (cases "prefix fence s")
    case True
    then have "length (drop 3 s) < length s"
      by (auto simp: fence_def prefix_def)
    with 1 have "ticks (ReplaceAll (drop 3 s) fence []) = ticks (drop 3 s) mod 3"
      by blast
    moreover have "ReplaceAll s fence [] = ReplaceAll (drop 3 s) fence []"
      using ReplaceAll_match [OF fence_facts(2) True, of "[]"] by (simp add: fence_facts)
    ultimately show ?thesis using ticks_drop3 [OF True] by simp
  next
    case np: False
    show ?thesis
    proof (cases s)
      case Nil
      then show ?thesis by (simp add: ReplaceAll_Nil ticks_def)
    next
      case (Cons c t)
      have r: "ReplaceAll s fence [] = c # ReplaceAll t fence []"
        using np Cons by (simp add: ReplaceAll_skip fence_facts)
      have ih: "ticks (ReplaceAll t fence []) = ticks t mod 3"
        using 1 Cons by simp
      from np have lt: "ticks s < 3" by (simp add: prefix_fence_ticks)
      show ?thesis
      proof (cases "c = BQ")
        case True
        with Cons lt have "ticks t < 2" by (simp add: ticks_def)
        with True Cons lt show ?thesis unfolding r by (simp add: ticks_def ih [unfolded ticks_def])
      next
        case False
        with Cons show ?thesis unfolding r by (simp add: ticks_def)
      qed
    qed
  qed
qed

lemma remove_fences_no_fence: "\<not> sublist fence (ReplaceAll s fence [])"
proof (induction s rule: length_induct)
  case (1 s)
  show ?case
  proof (cases "prefix fence s")
    case True
    then have "length (drop 3 s) < length s"
      by (auto simp: fence_def prefix_def)
    with 1 have "\<not> sublist fence (ReplaceAll (drop 3 s) fence [])" by blast
    moreover have "ReplaceAll s fence [] = ReplaceAll (drop 3 s) fence []"
      using ReplaceAll_match [OF fence_facts(2) True, of "[]"] by (simp add: fence_facts)
    ultimately show ?thesis by simp
  next
    case np: False
    show ?thesis
    proof (cases s)
      case Nil
      then show ?thesis by (simp add: ReplaceAll_Nil fence_def)
    next
      case (Cons c t)
      have r: "ReplaceAll s fence [] = c # ReplaceAll t fence []"
        using np Cons by (simp add: ReplaceAll_skip fence_facts)
      have ih: "\<not> sublist fence (ReplaceAll t fence [])"
        using 1 Cons by simp
      have "ticks (ReplaceAll s fence []) < 3"
        unfolding ticks_remove_fences by simp
      then have "\<not> prefix fence (c # ReplaceAll t fence [])"
        unfolding prefix_fence_ticks r by simp
      with ih show ?thesis unfolding r by (simp add: sublist_Cons_right)
    qed
  qed
qed

subsection \<open>The normalizer\<close>

lemma ticks_crlf: "ticks (ReplaceAll s [CR, LF] [LF]) = ticks s"
proof (induction s rule: length_induct)
  case (1 s)
  show ?case
  proof (cases "prefix [CR, LF] s")
    case True
    then obtain t where s: "s = CR # LF # t" by (auto simp: prefix_def)
    have "ReplaceAll s [CR, LF] [LF] = [LF] @ ReplaceAll (drop (length [CR, LF]) s) [CR, LF] [LF]"
      by (rule ReplaceAll_match) (use True in simp_all)
    with s show ?thesis by (simp add: ticks_def)
  next
    case np: False
    show ?thesis
    proof (cases s)
      case Nil
      then show ?thesis by (simp add: ReplaceAll_Nil)
    next
      case (Cons c t)
      have r: "ReplaceAll s [CR, LF] [LF] = c # ReplaceAll t [CR, LF] [LF]"
        using np Cons by (simp add: ReplaceAll_skip)
      have "ticks (ReplaceAll t [CR, LF] [LF]) = ticks t" using 1 Cons by simp
      then have "ticks (c # ReplaceAll t [CR, LF] [LF]) = ticks (c # t)"
        by (simp add: ticks_def)
      then show ?thesis using r Cons by simp
    qed
  qed
qed

lemma crlf_no_fence:
  "\<not> sublist fence s \<Longrightarrow> \<not> sublist fence (ReplaceAll s [CR, LF] [LF])"
proof (induction s rule: length_induct)
  case (1 s)
  show ?case
  proof (cases "prefix [CR, LF] s")
    case True
    then obtain t where s: "s = CR # LF # t" by (auto simp: prefix_def)
    have r: "ReplaceAll s [CR, LF] [LF] = LF # ReplaceAll t [CR, LF] [LF]"
      using ReplaceAll_match [of "[CR, LF]" s "[LF]"] True s by simp
    from "1.prems" s have "\<not> sublist fence t" by (simp add: sublist_Cons_right)
    with 1 s have "\<not> sublist fence (ReplaceAll t [CR, LF] [LF])" by simp
    then show ?thesis unfolding r by (simp add: sublist_Cons_right fence_def)
  next
    case np: False
    show ?thesis
    proof (cases s)
      case Nil
      then show ?thesis by (simp add: ReplaceAll_Nil fence_def)
    next
      case (Cons c t)
      have r: "ReplaceAll s [CR, LF] [LF] = c # ReplaceAll t [CR, LF] [LF]"
        using np Cons by (simp add: ReplaceAll_skip)
      from "1.prems" Cons have nt: "\<not> sublist fence t" and npf: "\<not> prefix fence s"
        by (simp_all add: sublist_Cons_right)
      from nt 1 Cons have ih: "\<not> sublist fence (ReplaceAll t [CR, LF] [LF])" by simp
      from npf have "\<not> prefix fence (ReplaceAll s [CR, LF] [LF])"
        unfolding prefix_fence_ticks ticks_crlf .
      with ih show ?thesis unfolding r by (simp add: sublist_Cons_right)
    qed
  qed
qed

lemma cleanModelOutput_no_fence: "\<not> sublist fence (cleanModelOutput x)"
proof -
  have "\<not> sublist fence (ReplaceAll (ReplaceAll s fence []) [CR, LF] [LF])" for s
    by (rule crlf_no_fence) (rule remove_fences_no_fence)
  then have "\<not> sublist fence (TrimSpace (ReplaceAll (ReplaceAll s fence []) [CR, LF] [LF]))" for s
    using TrimSpace_sublist sublist_trans by blast
  then show ?thesis by (simp add: cleanModelOutput_def Let_def)
qed

lemma cleanModelOutput_trimmed: "TrimSpace (cleanModelOutput x) = cleanModelOutput x"
  by (simp add: cleanModelOutput_def Let_def TrimSpace_idem)

lemma cleanModelOutput_fixed:
  assumes t: "TrimSpace y = y" and q: "\<not> (quoted y \<and> Unquote y \<noteq> None)"
    and f: "\<not> sublist fence y" and c: "\<not> sublist [CR, LF] y"
  shows "cleanModelOutput y = y"
proof -
  have s2: "(if quoted y then (case Unquote y of Some unq \<Rightarrow> unq | None \<Rightarrow> y) else y) = y"
    using q by (auto split: option.splits)
  have m: "\<not> fenceRe_MatchString y"
    using f by (simp add: fenceRe_MatchString_def findFence_no_fence)
  have s4: "ReplaceAll y fence [] = y" using f by (rule ReplaceAll_absent)
  have s5: "ReplaceAll y [CR, LF] [LF] = y" using c by (rule ReplaceAll_absent)
  show ?thesis
    unfolding cleanModelOutput_def Let_def t s2 using m by (simp add: s4 s5 t)
qed

section \<open>Facts about the backend client\<close>

lemma decode_loop_objects:
  "decode_loop (map Object objs) acc = (acc @ concat (map Response objs), None)"
  by (induction objs arbitrary: acc) simp_all

lemma decode_loop_malformed:
  "decode_loop (map Object objs @ Malformed e # rest) acc
     = ([], Some (Err (''failed to decode response: '' @ msg e)))"
  by (induction objs arbitrary: acc) simp_all

lemma decode_loop_append:
  "decode_loop (map Object objs @ rest) acc = decode_loop rest (acc @ concat (map Response objs))"
  by (induction objs arbitrary: acc) simp_all

lemma decode_loop_redone: "decode_loop (map (redone f) items) acc = decode_loop items acc"
  by (induction items acc rule: decode_loop.induct) simp_all

lemma callOllama_success:
  assumes "Marshal_err E req = None" and "NewRequest_err E url = None"
    and "Do E (length (filter isHTTP (trace st)))
           \<lparr>Method = ''POST'', URL = url, ContentType = ''application/json'',
            Payload = Some req, Timeout = 60 * Second\<rparr> = Inr resp"
    and "StatusCode resp < 400"
  shows "fst (callOllama E url req st) =
           (case decode_loop (Decoded resp) [] of
              (result, None) \<Rightarrow> (TrimSpace (cleanModelOutput result), None)
            | (_, Some err) \<Rightarrow> ([], Some err))"
  using assms by (simp add: callOllama_def Let_def split: prod.splits option.splits)

lemma callOllama_trace:
  "trace (snd (callOllama E url req st)) = trace st \<or>
   trace (snd (callOllama E url req st)) =
     trace st @ [EvHTTP \<lparr>Method = ''POST'', URL = url, ContentType = ''application/json'',
                         Payload = Some req, Timeout = 60000000000\<rparr>]"
  by (simp add: callOllama_def Let_def emit_def closeBody_def logPrintf_def Second_def
      split: prod.splits option.splits sum.splits)

section \<open>Facts about the run\<close>

subsection \<open>The retry loop, and calls in the same world\<close>

lemma summarizer_loop_twice:
  "summarizer_loop E fl url prompt 1 vars st =
     (case callOllama E url (summarizerReq fl prompt) st of
        (r1, st1) \<Rightarrow>
          (case callOllama E url (summarizerReq fl prompt) (attempt_report fl 1 r1 st1) of
             (r2, st2) \<Rightarrow> (r2, attempt_report fl 2 r2 st2)))"
proof -
  have 3: "summarizer_loop E fl url prompt (Suc (Suc (Suc 0))) v s = (v, s)" for v s
    by (subst summarizer_loop.simps) simp
  have 2: "summarizer_loop E fl url prompt (Suc (Suc 0)) v s =
      (case callOllama E url (summarizerReq fl prompt) s of
         (r2, st2) \<Rightarrow> (r2, attempt_report fl (Suc (Suc 0)) r2 st2))" for v s
    by (subst summarizer_loop.simps) (simp add: 3 split: prod.splits)
  have 1: "summarizer_loop E fl url prompt (Suc 0) v s =
      (case callOllama E url (summarizerReq fl prompt) s of
         (r1, st1) \<Rightarrow> summarizer_loop E fl url prompt (Suc (Suc 0)) r1
                        (attempt_report fl (Suc 0) r1 st1))" for v s
    by (subst summarizer_loop.simps) simp
  show ?thesis
    unfolding One_nat_def numeral_2_eq_2 1 2 ..
qed

lemma trace_log [simp]:
  "trace (emit e st) = trace st @ [e]"
  "trace (eprint m st) = trace st"
  "trace (logPrintf m st) = trace st"
  "trace (statusf m st) = trace st"
  "trace (debugLog fl m st) = trace st"
  "trace (closeBody w resp st) = trace st"
  "trace (attempt_report fl n r st) = trace st"
  by (simp_all add: emit_def eprint_def logPrintf_def statusf_def debugLog_def closeBody_def
      attempt_report_def split: option.splits)

lemma files_log [simp]:
  "files (emit e st) = files st"
  "files (eprint m st) = files st"
  "files (logPrintf m st) = files st"
  "files (statusf m st) = files st"
  "files (debugLog fl m st) = files st"
  "files (closeBody w resp st) = files st"
  "files (attempt_report fl n r st) = files st"
  by (simp_all add: emit_def eprint_def logPrintf_def statusf_def debugLog_def closeBody_def
      attempt_report_def split: option.splits)

lemma same_world_refl [simp]: "same_world st st"
  by (simp add: same_world_def)

lemma same_world_sym: "same_world a b \<Longrightarrow> same_world b a"
  by (simp add: same_world_def)

lemma same_world_trans: "same_world a b \<Longrightarrow> same_world b c \<Longrightarrow> same_world a c"
  by (simp add: same_world_def)

lemma same_world_log [simp]:
  "same_world (eprint m st) st' = same_world st st'"
  "same_world (logPrintf m st) st' = same_world st st'"
  "same_world (statusf m st) st' = same_world st st'"
  "same_world (debugLog fl m st) st' = same_world st st'"
  "same_world st (eprint m st') = same_world st st'"
  "same_world st (logPrintf m st') = same_world st st'"
  "same_world st (statusf m st') = same_world st st'"
  "same_world st (debugLog fl m st') = same_world st st'"
  by (simp_all add: same_world_def)

lemma same_world_closeBody [simp]:
  "same_world (closeBody w resp st) st' = same_world st st'"
  "same_world st (closeBody w resp st') = same_world st st'"
  by (simp_all add: same_world_def)

lemma same_world_attempt_report [simp]:
  "same_world (attempt_report fl n r st) st' = same_world st st'"
  "same_world st (attempt_report fl n r st') = same_world st st'"
  by (simp_all add: same_world_def)

lemma same_world_emit: "same_world st st' \<Longrightarrow> same_world (emit e st) (emit e st')"
  by (simp add: same_world_def)

lemma callOllama_cong:
  assumes "same_world st st'"
  shows "fst (callOllama E url req st) = fst (callOllama E url req st')"
    and "same_world (snd (callOllama E url req st)) (snd (callOllama E url req st'))"
  using assms
  by (auto simp: callOllama_def Let_def same_world_def split: option.splits sum.splits prod.splits)

lemma checkOllama_cong:
  assumes "same_world st st'"
  shows "fst (checkOllama E url st) = fst (checkOllama E url st')"
    and "same_world (snd (checkOllama E url st)) (snd (checkOllama E url st'))"
  using assms
  by (auto simp: checkOllama_def Let_def same_world_def split: option.splits sum.splits prod.splits)

lemma getStagedDiff_cong:
  assumes "same_world st st'"
  shows "fst (getStagedDiff E st) = fst (getStagedDiff E st')"
    and "same_world (snd (getStagedDiff E st)) (snd (getStagedDiff E st'))"
  using assms
  by (auto simp: getStagedDiff_def Let_def same_world_def split: option.splits prod.splits)

lemma ReadFile_cong:
  assumes "same_world st st'"
  shows "fst (ReadFile E p st) = fst (ReadFile E p st')"
    and "same_world (snd (ReadFile E p st)) (snd (ReadFile E p st'))"
  using assms
  by (auto simp: ReadFile_def Let_def same_world_def split: option.splits)

lemma WriteFile_cong:
  assumes "same_world st st'"
  shows "fst (WriteFile E p d st) = fst (WriteFile E p d st')"
    and "same_world (snd (WriteFile E p d st)) (snd (WriteFile E p d st'))"
  using assms
  by (auto simp: WriteFile_def Let_def same_world_def split: option.splits)

lemma Stat_cong:
  assumes "same_world st st'"
  shows "fst (Stat E p st) = fst (Stat E p st')"
    and "same_world (snd (Stat E p st)) (snd (Stat E p st'))"
  using assms
  by (auto simp: Stat_def Let_def same_world_def split: option.splits)

lemma OpenFile_cong:
  assumes "same_world st st'"
  shows "fst (OpenFile E p st) = fst (OpenFile E p st')"
    and "same_world (snd (OpenFile E p st)) (snd (OpenFile E p st'))"
  using assms
  by (auto simp: OpenFile_def Let_def same_world_def split: option.splits)

lemma WriteString_cong:
  assumes "same_world st st'"
  shows "fst (WriteString E p d st) = fst (WriteString E p d st')"
    and "same_world (snd (WriteString E p d st)) (snd (WriteString E p d st'))"
  using assms
  by (auto simp: WriteString_def Let_def same_world_def split: option.splits)

lemma summarizer_loop_cong:
  assumes "same_world st st'"
  shows "fst (summarizer_loop E fl url p 1 v st) = fst (summarizer_loop E fl url p 1 v st')"
    and "same_world (snd (summarizer_loop E fl url p 1 v st)) (snd (summarizer_loop E fl url p 1 v st'))"
proof -
  let ?c = "callOllama E url (summarizerReq fl p)"
  have r1: "fst (?c st) = fst (?c st')" and w1: "same_world (snd (?c st)) (snd (?c st'))"
    using assms by (rule callOllama_cong)+
  let ?a = "attempt_report fl 1 (fst (?c st)) (snd (?c st))"
  let ?a' = "attempt_report fl 1 (fst (?c st')) (snd (?c st'))"
  have w2: "same_world ?a ?a'" using w1 by simp
  have r2: "fst (?c ?a) = fst (?c ?a')" and w3: "same_world (snd (?c ?a)) (snd (?c ?a'))"
    using w2 by (rule callOllama_cong)+
  have e: "summarizer_loop E fl url p 1 v s = (fst (?c (attempt_report fl 1 (fst (?c s)) (snd (?c s)))),
      attempt_report fl 2 (fst (?c (attempt_report fl 1 (fst (?c s)) (snd (?c s)))))
        (snd (?c (attempt_report fl 1 (fst (?c s)) (snd (?c s))))))" for s
    unfolding summarizer_loop_twice by (simp split: prod.splits)
  show "fst (summarizer_loop E fl url p 1 v st) = fst (summarizer_loop E fl url p 1 v st')"
    unfolding e using r2 by simp
  show "same_world (snd (summarizer_loop E fl url p 1 v st)) (snd (summarizer_loop E fl url p 1 v st'))"
    unfolding e using w3 by simp
qed

subsection \<open>The stages\<close>

lemma saveStage_cong:
  "same_world st st' \<Longrightarrow> same_world (saveStage E fl s st) (saveStage E fl s st')"
  using WriteFile_cong [of "statusf (''Saving summary to '' @ saveSummary fl) st"
      "statusf (''Saving summary to '' @ saveSummary fl) st'" E "saveSummary fl" s]
  by (auto simp: saveStage_def Let_def split: prod.splits option.splits)

lemma loop_chain:
  assumes "same_world st (snd (diffed E fl st0))"
  shows "fst (summarizer_loop E fl (endpoint fl) (summaryPrompt (fst (fst (diffed E fl st0)))) 1 v st)
           = fst (attempt2 E fl st0)"
    and "same_world (snd (summarizer_loop E fl (endpoint fl) (summaryPrompt (fst (fst (diffed E fl st0)))) 1 v st))
           (snd (attempt2 E fl st0))"
proof -
  let ?c = "callOllama E (endpoint fl) (summarizerReq fl (summaryPrompt (fst (fst (diffed E fl st0)))))"
  have 1: "fst (?c st) = fst (attempt1 E fl st0)" "same_world (snd (?c st)) (snd (attempt1 E fl st0))"
    unfolding attempt1_def using assms by (rule callOllama_cong)+
  let ?a = "attempt_report fl 1 (fst (?c st)) (snd (?c st))"
  have "same_world ?a (snd (attempt1 E fl st0))" using 1(2) by simp
  then have 2: "fst (?c ?a) = fst (attempt2 E fl st0)" "same_world (snd (?c ?a)) (snd (attempt2 E fl st0))"
    unfolding attempt2_def by (rule callOllama_cong)+
  have e: "summarizer_loop E fl (endpoint fl) (summaryPrompt (fst (fst (diffed E fl st0)))) 1 v st
      = (fst (?c ?a), attempt_report fl 2 (fst (?c ?a)) (snd (?c ?a)))"
    unfolding summarizer_loop_twice by (simp split: prod.splits)
  show "fst (summarizer_loop E fl (endpoint fl) (summaryPrompt (fst (fst (diffed E fl st0)))) 1 v st)
           = fst (attempt2 E fl st0)"
    unfolding e using 2(1) by simp
  show "same_world (snd (summarizer_loop E fl (endpoint fl) (summaryPrompt (fst (fst (diffed E fl st0)))) 1 v st))
           (snd (attempt2 E fl st0))"
    unfolding e using 2(2) by simp
qed

lemma summarizeStage_chain:
  assumes sw: "same_world st st0"
  shows "fst (summarizeStage E fl (endpoint fl) st) =
           (case fst (probed E fl st0) of
              Some _ \<Rightarrow> Inl 1
            | None \<Rightarrow>
                (case snd (fst (diffed E fl st0)) of
                   Some _ \<Rightarrow> Inl 2
                 | None \<Rightarrow>
                     (case snd (fst (attempt2 E fl st0)) of
                        Some _ \<Rightarrow> Inl 3
                      | None \<Rightarrow> Inr (fst (fst (attempt2 E fl st0))))))"
    and "fst (probed E fl st0) = None \<Longrightarrow> snd (fst (diffed E fl st0)) = None \<Longrightarrow>
         snd (fst (attempt2 E fl st0)) = None \<Longrightarrow>
         same_world (snd (summarizeStage E fl (endpoint fl) st))
           (saveStage E fl (fst (fst (attempt2 E fl st0))) (snd (attempt2 E fl st0)))"
proof -
  let ?st1 = "statusf (''Checking Ollama availability at '' @ endpoint fl) st"
  have p: "fst (checkOllama E (endpoint fl) ?st1) = fst (probed E fl st0)"
    "same_world (snd (checkOllama E (endpoint fl) ?st1)) (snd (probed E fl st0))"
    unfolding probed_def using sw by (auto intro!: checkOllama_cong)
  let ?st2 = "snd (checkOllama E (endpoint fl) ?st1)"
  let ?st3 = "statusf ''Gathering git diff (staged or unstaged)'' (statusf ''Ollama reachable'' ?st2)"
  have d: "fst (getStagedDiff E ?st3) = fst (diffed E fl st0)"
    "same_world (snd (getStagedDiff E ?st3)) (snd (diffed E fl st0))"
    unfolding diffed_def using p(2) by (auto intro!: getStagedDiff_cong)
  let ?st4 = "snd (getStagedDiff E ?st3)"
  let ?diff = "fst (fst (diffed E fl st0))"
  let ?st6 = "statusf (''Calling summarizer model '' @ [SQ] @ summarizerModel fl @ [SQ])
     (statusf (''Diff collected ('' @ Itoa_nat (length ?diff) @ '' bytes)'') ?st4)"
  have "same_world ?st6 (snd (diffed E fl st0))" using d(2) by simp
  note l = loop_chain [OF this, of "([], None)"]
  let ?L = "summarizer_loop E fl (endpoint fl) (summaryPrompt ?diff) 1 ([], None) ?st6"
  have f: "fst (summarizeStage E fl (endpoint fl) st) =
     (case fst (probed E fl st0) of
        Some err \<Rightarrow> Inl 1
      | None \<Rightarrow>
         (case snd (fst (diffed E fl st0)) of
            Some err \<Rightarrow> Inl 2
          | None \<Rightarrow> (case snd (fst ?L) of Some lastErr \<Rightarrow> Inl 3 | None \<Rightarrow> Inr (fst (fst ?L)))))"
    unfolding summarizeStage_def Let_def case_prod_beta p(1) d(1)
    by (simp split: option.splits)
  have g: "snd (summarizeStage E fl (endpoint fl) st) = saveStage E fl (fst (fst ?L)) (snd ?L)"
    if "fst (probed E fl st0) = None" "snd (fst (diffed E fl st0)) = None" "snd (fst ?L) = None"
    unfolding summarizeStage_def Let_def case_prod_beta p(1) d(1)
    using that by simp
  show "fst (summarizeStage E fl (endpoint fl) st) =
           (case fst (probed E fl st0) of
              Some _ \<Rightarrow> Inl 1
            | None \<Rightarrow>
                (case snd (fst (diffed E fl st0)) of
                   Some _ \<Rightarrow> Inl 2
                 | None \<Rightarrow>
                     (case snd (fst (attempt2 E fl st0)) of
                        Some _ \<Rightarrow> Inl 3
                      | None \<Rightarrow> Inr (fst (fst (attempt2 E fl st0))))))"
    unfolding f l(1) ..
  show "same_world (snd (summarizeStage E fl (endpoint fl) st))
           (saveStage E fl (fst (fst (attempt2 E fl st0))) (snd (attempt2 E fl st0)))"
    if h: "fst (probed E fl st0) = None" "snd (fst (diffed E fl st0)) = None"
         "snd (fst (attempt2 E fl st0)) = None"
  proof -
    from h(3) have "snd (fst ?L) = None" unfolding l(1) .
    from g [OF h(1,2) this] have "snd (summarizeStage E fl (endpoint fl) st)
        = saveStage E fl (fst (fst (attempt2 E fl st0))) (snd ?L)"
      unfolding l(1) .
    then show ?thesis using saveStage_cong [OF l(2)] by simp
  qed
qed

lemma loadStage_chain:
  assumes sw: "same_world st st0"
  shows "fst (loadStage E fl st) =
           (case snd (fst (loaded E fl st0)) of Some _ \<Rightarrow> Inl 2 | None \<Rightarrow> Inr (fst (fst (loaded E fl st0))))"
    and "same_world (snd (loadStage E fl st)) (snd (loaded E fl st0))"
proof -
  let ?st1 = "statusf (''Loading summary from '' @ loadSummary fl) st"
  have r: "fst (ReadFile E (loadSummary fl) ?st1) = fst (loaded E fl st0)"
    "same_world (snd (ReadFile E (loadSummary fl) ?st1)) (snd (loaded E fl st0))"
    unfolding loaded_def using sw by (auto intro!: ReadFile_cong)
  show "fst (loadStage E fl st) =
           (case snd (fst (loaded E fl st0)) of Some _ \<Rightarrow> Inl 2 | None \<Rightarrow> Inr (fst (fst (loaded E fl st0))))"
    unfolding loadStage_def Let_def case_prod_beta r(1) by (simp split: option.splits)
  show "same_world (snd (loadStage E fl st)) (snd (loaded E fl st0))"
    unfolding loadStage_def Let_def case_prod_beta using r(2) by (simp split: option.splits)
qed

lemma hookStage_cong:
  assumes "same_world st st'"
  shows "fst (hookStage E fl m st) = fst (hookStage E fl m st')"
    and "same_world (snd (hookStage E fl m st)) (snd (hookStage E fl m st'))"
  using assms
  by (auto simp: hookStage_def Let_def same_world_def Stat_def OpenFile_def WriteString_def
        WriteFile_def split: option.splits prod.splits)

lemma same_world_closeHook:
  "same_world st st' \<Longrightarrow> same_world (closeHook E fl st) (closeHook E fl st')"
  by (auto simp: closeHook_def Let_def same_world_def split: option.splits)

lemma styleStage_chain:
  assumes sw: "same_world st (summarized E fl st0)"
  shows "fst (styleStage E fl (endpoint fl) (summary E fl st0) st) =
           (case snd (fst (styled E fl st0)) of
              Some _ \<Rightarrow> 4
            | None \<Rightarrow> (case fst (fst (sunk E fl st0)) of Some code \<Rightarrow> code | None \<Rightarrow> 0))"
    and "same_world (snd (styleStage E fl (endpoint fl) (summary E fl st0) st))
           (case snd (fst (styled E fl st0)) of
              Some _ \<Rightarrow> snd (styled E fl st0)
            | None \<Rightarrow> finished E fl st0)"
proof -
  let ?st1 = "statusf (''Calling style model '' @ [SQ] @ styleModel fl @ [SQ]
                         @ '' with tone: '' @ tone fl) st"
  let ?c = "callOllama E (endpoint fl) (styleReq fl (stylePrompt (tone fl) (summary E fl st0))) ?st1"
  have c: "fst ?c = fst (styled E fl st0)" "same_world (snd ?c) (snd (styled E fl st0))"
    unfolding styled_def using sw by (auto intro!: callOllama_cong)
  let ?st3 = "statusf ''Final message generated'' (snd ?c)"
  let ?m = "if noLabels fl then stripLabels (TrimSpace (fst (fst (styled E fl st0))))
            else TrimSpace (fst (fst (styled E fl st0)))"
  have m: "?m = finalMessage E fl st0" by (simp add: finalMessage_def Let_def)
  let ?st4 = "?st3\<lparr>stdout := stdout ?st3 @ ?m @ [LF]\<rparr>"
  have "same_world ?st4 (snd (styled E fl st0))"
    using c(2) by (simp add: same_world_def)
  then have h: "fst (hookStage E fl ?m ?st4) = fst (sunk E fl st0)"
    "same_world (snd (hookStage E fl ?m ?st4)) (snd (sunk E fl st0))"
    unfolding sunk_def m [symmetric] by (rule hookStage_cong)+
  define cs where "cs = snd ?c"
  define hs where "hs = snd (hookStage E fl ?m ?st4)"
  have c2: "same_world cs (snd (styled E fl st0))" unfolding cs_def by (rule c(2))
  have h2: "same_world hs (snd (sunk E fl st0))" unfolding hs_def by (rule h(2))
  have eq: "styleStage E fl (endpoint fl) (summary E fl st0) st =
     (case snd (fst (styled E fl st0)) of
        Some err \<Rightarrow> (4, debugLog fl (''styling call error: '' @ msg err)
                (eprint (''Styling model error: '' @ msg err @ [LF]) cs))
      | None \<Rightarrow>
          (case fst (fst (sunk E fl st0)) of
             Some code \<Rightarrow> (code, hs)
           | None \<Rightarrow> (0, if snd (fst (sunk E fl st0))
                          then closeHook E fl (statusf ''Done'' hs)
                          else statusf ''Done'' hs)))"
    unfolding cs_def hs_def styleStage_def Let_def case_prod_beta c(1) h(1)
    by (simp split: option.splits)
  show "fst (styleStage E fl (endpoint fl) (summary E fl st0) st) =
           (case snd (fst (styled E fl st0)) of
              Some _ \<Rightarrow> 4
            | None \<Rightarrow> (case fst (fst (sunk E fl st0)) of Some code \<Rightarrow> code | None \<Rightarrow> 0))"
    unfolding eq by (simp split: option.splits)
  have "same_world (closeHook E fl (statusf ''Done'' hs)) (closeHook E fl (snd (sunk E fl st0)))"
    by (rule same_world_closeHook) (use h2 in simp)
  then show "same_world (snd (styleStage E fl (endpoint fl) (summary E fl st0) st))
           (case snd (fst (styled E fl st0)) of
              Some _ \<Rightarrow> snd (styled E fl st0)
            | None \<Rightarrow> finished E fl st0)"
    unfolding eq finished_def using c2 h2 by (simp split: option.splits)
qed

lemma main_unfold:
  "main E fl st0 =
     (let st = debugLog fl (debugBanner fl (endpoint fl)) st0;
          S = (if loadSummary fl \<noteq> [] then loadStage E fl st
               else summarizeStage E fl (endpoint fl) st)
      in case fst S of
           Inl code \<Rightarrow> (code, snd S)
         | Inr summ \<Rightarrow> styleStage E fl (endpoint fl) summ (snd S))"
  by (simp add: main_def Let_def case_prod_beta)


subsection \<open>The message sink\<close>

lemma hookStage_none: "hookFile fl = [] \<Longrightarrow> hookStage E fl m st = ((None, False), st)"
  by (simp add: hookStage_def)

lemma hookStage_overwrite:
  assumes "hookFile fl \<noteq> []"
    and "forceWrite fl \<or> files st (hookFile fl) = None \<or> Stat_err E (hookFile fl) \<noteq> None"
  shows "fst (fst (hookStage E fl m st)) =
           (case WriteFile_err E (hookFile fl) of Some _ \<Rightarrow> Some 7 | None \<Rightarrow> None)"
    and "files (snd (hookStage E fl m st)) =
           (case WriteFile_err E (hookFile fl) of
              Some _ \<Rightarrow>
                (case WriteFile_done E (hookFile fl) of
                   None \<Rightarrow> files st
                 | Some n \<Rightarrow> (files st)(hookFile fl \<mapsto> take n (m @ [LF])))
            | None \<Rightarrow> (files st)(hookFile fl \<mapsto> m @ [LF]))"
  using assms
  by (auto simp: hookStage_def Let_def Stat_def WriteFile_def split: option.splits)

lemma hookStage_append:
  assumes "hookFile fl \<noteq> []" and "\<not> forceWrite fl"
    and "files st (hookFile fl) = Some old" and "Stat_err E (hookFile fl) = None"
  shows "fst (fst (hookStage E fl m st)) =
           (if OpenFile_err E (hookFile fl) \<noteq> None then Some 5
            else if WriteString_err E (hookFile fl) \<noteq> None then Some 6 else None)"
    and "files (snd (hookStage E fl m st)) =
           (if OpenFile_err E (hookFile fl) \<noteq> None then files st
            else if WriteString_err E (hookFile fl) \<noteq> None
            then (files st)(hookFile fl \<mapsto>
                    old @ take (WriteString_done E (hookFile fl)) (suggestion m))
            else (files st)(hookFile fl \<mapsto> old @ suggestion m))"
  using assms
  by (auto simp: hookStage_def Let_def Stat_def OpenFile_def WriteString_def split: option.splits)

lemma callOllama_files [simp]: "files (snd (callOllama E url req st)) = files st"
  by (simp add: callOllama_def Let_def split: option.splits sum.splits prod.splits)

lemma files_same_world: "same_world st st' \<Longrightarrow> files st = files st'"
  by (simp add: same_world_def)

lemma trace_same_world: "same_world st st' \<Longrightarrow> trace st = trace st'"
  by (simp add: same_world_def)

subsection \<open>The world at the end, and traces\<close>

lemma summarizeStage_world:
  assumes sw: "same_world st st0"
  shows "same_world (snd (summarizeStage E fl (endpoint fl) st))
     (if fst (probed E fl st0) \<noteq> None then snd (probed E fl st0)
      else if snd (fst (diffed E fl st0)) \<noteq> None then snd (diffed E fl st0)
      else if snd (fst (attempt2 E fl st0)) \<noteq> None then snd (attempt2 E fl st0)
      else saveStage E fl (fst (fst (attempt2 E fl st0))) (snd (attempt2 E fl st0)))"
proof -
  let ?st1 = "statusf (''Checking Ollama availability at '' @ endpoint fl) st"
  have p: "fst (checkOllama E (endpoint fl) ?st1) = fst (probed E fl st0)"
    "same_world (snd (checkOllama E (endpoint fl) ?st1)) (snd (probed E fl st0))"
    unfolding probed_def using sw by (auto intro!: checkOllama_cong)
  let ?st2 = "snd (checkOllama E (endpoint fl) ?st1)"
  let ?st3 = "statusf ''Gathering git diff (staged or unstaged)'' (statusf ''Ollama reachable'' ?st2)"
  have d: "fst (getStagedDiff E ?st3) = fst (diffed E fl st0)"
    "same_world (snd (getStagedDiff E ?st3)) (snd (diffed E fl st0))"
    unfolding diffed_def using p(2) by (auto intro!: getStagedDiff_cong)
  let ?st4 = "snd (getStagedDiff E ?st3)"
  let ?diff = "fst (fst (diffed E fl st0))"
  let ?st6 = "statusf (''Calling summarizer model '' @ [SQ] @ summarizerModel fl @ [SQ])
     (statusf (''Diff collected ('' @ Itoa_nat (length ?diff) @ '' bytes)'') ?st4)"
  have "same_world ?st6 (snd (diffed E fl st0))" using d(2) by simp
  note l = loop_chain [OF this, of "([], None)"]
  let ?L = "summarizer_loop E fl (endpoint fl) (summaryPrompt ?diff) 1 ([], None) ?st6"
  define s2 where "s2 = ?st2"
  define s4 where "s4 = ?st4"
  define L where "L = ?L"
  have w: "same_world s2 (snd (probed E fl st0))" "same_world s4 (snd (diffed E fl st0))"
    "same_world (snd L) (snd (attempt2 E fl st0))" "fst L = fst (attempt2 E fl st0)"
    unfolding s2_def s4_def L_def using p(2) d(2) l by simp_all
  have eq: "snd (summarizeStage E fl (endpoint fl) st) =
     (case fst (probed E fl st0) of
        Some err \<Rightarrow> debugLog fl (''checkOllama error: '' @ msg err) (eprint (msg err @ [LF]) s2)
      | None \<Rightarrow>
         (case snd (fst (diffed E fl st0)) of
            Some err \<Rightarrow> debugLog fl (''getStagedDiff error: '' @ msg err)
                         (eprint (''Error reading git diff: '' @ msg err @ [LF]) s4)
          | None \<Rightarrow>
             (case snd (fst L) of
                Some lastErr \<Rightarrow> eprint (''Summarizer error: '' @ msg lastErr @ [LF]) (snd L)
              | None \<Rightarrow> saveStage E fl (fst (fst L)) (snd L))))"
    unfolding s2_def s4_def L_def summarizeStage_def Let_def case_prod_beta p(1) d(1)
    by (simp split: option.splits)
  show ?thesis
    unfolding eq using w saveStage_cong [OF w(3)] by (simp split: option.splits)
qed

lemma main_world:
  "same_world (snd (main E fl st0)) (final_world E fl st0)"
proof -
  let ?st = "debugLog fl (debugBanner fl (endpoint fl)) st0"
  have sw: "same_world ?st st0" by simp
  show ?thesis
  proof (cases "loadSummary fl = []")
    case True
    note s = summarizeStage_chain [OF sw, of E fl]
    note w = summarizeStage_world [OF sw, of E fl]
    show ?thesis
    proof (cases "fst (summarizeStage E fl (endpoint fl) ?st)")
      case (Inl c)
      then have m: "main E fl st0 = (c, snd (summarizeStage E fl (endpoint fl) ?st))"
        unfolding main_unfold Let_def using True by simp
      from Inl s(1) have "fst (probed E fl st0) \<noteq> None \<or> snd (fst (diffed E fl st0)) \<noteq> None
          \<or> snd (fst (attempt2 E fl st0)) \<noteq> None"
        by (auto split: option.splits)
      with w True show ?thesis unfolding m final_world_def by auto
    next
      case (Inr summ)
      with s(1) have ok: "fst (probed E fl st0) = None" "snd (fst (diffed E fl st0)) = None"
        "snd (fst (attempt2 E fl st0)) = None" and summ: "summ = summary E fl st0"
        using True by (auto simp: summary_def split: option.splits)
      from s(2) [OF ok] have "same_world (snd (summarizeStage E fl (endpoint fl) ?st)) (summarized E fl st0)"
        using True by (simp add: summarized_def summary_def)
      note t = styleStage_chain [OF this]
      have "main E fl st0 = styleStage E fl (endpoint fl) (summary E fl st0)
          (snd (summarizeStage E fl (endpoint fl) ?st))"
        unfolding main_unfold Let_def using True Inr summ by simp
      with t(2) ok True show ?thesis unfolding final_world_def by (auto split: option.splits)
    qed
  next
    case False
    note s = loadStage_chain [OF sw, of E fl]
    show ?thesis
    proof (cases "fst (loadStage E fl ?st)")
      case (Inl c)
      then have m: "main E fl st0 = (c, snd (loadStage E fl ?st))"
        unfolding main_unfold Let_def using False by simp
      from Inl s(1) have "snd (fst (loaded E fl st0)) \<noteq> None"
        by (auto split: option.splits)
      with s(2) False show ?thesis unfolding m final_world_def by auto
    next
      case (Inr summ)
      with s(1) have ok: "snd (fst (loaded E fl st0)) = None" and summ: "summ = summary E fl st0"
        using False by (auto simp: summary_def split: option.splits)
      from s(2) have "same_world (snd (loadStage E fl ?st)) (summarized E fl st0)"
        using False by (simp add: summarized_def)
      note t = styleStage_chain [OF this]
      have "main E fl st0 = styleStage E fl (endpoint fl) (summary E fl st0) (snd (loadStage E fl ?st))"
        unfolding main_unfold Let_def using False Inr summ by simp
      with t(2) ok False show ?thesis unfolding final_world_def by (auto split: option.splits)
    qed
  qed
qed

lemma callOllama_trace_post:
  "trace (snd (callOllama E url req st)) =
     trace st @ (if Marshal_err E req = None \<and> NewRequest_err E url = None
                 then [EvHTTP (post url req)] else [])"
  by (simp add: callOllama_def Let_def post_def split: option.splits sum.splits prod.splits)


lemma saveStage_trace:
  "trace (saveStage E fl s st) =
     trace st @ (if saveSummary fl \<noteq> [] then [EvWriteFile (saveSummary fl) s] else [])"
  by (simp add: saveStage_def Let_def WriteFile_def split: option.splits)

lemma hookStage_trace:
  "\<exists>new. trace (snd (hookStage E fl m st)) = trace st @ new \<and> list_all fileEvent new"
  by (auto simp: hookStage_def Let_def Stat_def OpenFile_def WriteString_def WriteFile_def
      fileEvent_def split: option.splits)

lemma closeHook_trace: "trace (closeHook E fl st) = trace st @ [EvClose (hookFile fl)]"
  by (simp add: closeHook_def Let_def split: option.splits)

lemma finished_trace:
  "\<exists>new. trace (finished E fl st0) = trace (snd (styled E fl st0)) @ new \<and> list_all fileEvent new"
proof -
  obtain new where n: "trace (snd (sunk E fl st0)) = trace (snd (styled E fl st0)) @ new"
    "list_all fileEvent new"
    unfolding sunk_def using hookStage_trace by blast
  show ?thesis
  proof (cases "fst (fst (sunk E fl st0)) = None \<and> snd (fst (sunk E fl st0))")
    case True
    then have "trace (finished E fl st0) = trace (snd (styled E fl st0)) @ (new @ [EvClose (hookFile fl)])"
      by (simp add: finished_def closeHook_trace n(1))
    moreover have "list_all fileEvent (new @ [EvClose (hookFile fl)])"
      using n(2) by (simp add: fileEvent_def)
    ultimately show ?thesis by blast
  next
    case False
    then have "trace (finished E fl st0) = trace (snd (styled E fl st0)) @ new"
      by (auto simp: finished_def n(1))
    with n(2) show ?thesis by blast
  qed
qed

lemma checkOllama_trace:
  "fst (checkOllama E url st) = None \<Longrightarrow>
   \<exists>u. trace (snd (checkOllama E url st)) =
     trace st @ [EvHTTP \<lparr>Method = ''GET'', URL = u, ContentType = [], Payload = None,
                          Timeout = 3 * Second\<rparr>]"
  by (auto simp: checkOllama_def Let_def split: sum.splits if_splits)

lemma getStagedDiff_trace:
  "\<exists>new. trace (snd (getStagedDiff E st)) = trace st @ new \<and> list_all (\<lambda>e. \<exists>a. e = EvGit a) new"
  by (auto simp: getStagedDiff_def Let_def split: prod.splits option.splits)

section \<open>The claims\<close>

subsection \<open>The output normalizer\<close>

text \<open>
  Two examples of the specification: a fenced block is replaced by its content, and a
  quoted string is unescaped.
\<close>

lemma cleanModelOutput_fenced_example:
  "cleanModelOutput (fence @ ''go'' @ [LF] @ ''func f(){}'' @ [LF] @ fence) = ''func f(){}''"
  by code_simp

lemma cleanModelOutput_quoted_example:
  "cleanModelOutput ([DQ] @ ''hello'' @ [BSL] @ ''nworld'' @ [DQ]) = ''hello'' @ [LF] @ ''world''"
  by code_simp

text \<open>
  Claim C2 says that the normalizer is idempotent on every input.  It is not: the
  replacement of CR LF by LF is one pass from the left, so that \<open>a CR CR LF b\<close> becomes
  \<open>a CR LF b\<close>, which a second application turns into \<open>a LF b\<close>.
\<close>

theorem cleanModelOutput_not_idempotent:
  "cleanModelOutput (cleanModelOutput [CHR ''a'', CR, CR, LF, CHR ''b''])
     \<noteq> cleanModelOutput [CHR ''a'', CR, CR, LF, CHR ''b'']"
  by code_simp

text \<open>
  A quoted string is unquoted once only, which is the second way to lose idempotence:
  the literal \<open>"\"a\""\<close> gives \<open>"a"\<close>, and that gives \<open>a\<close>.
\<close>

lemma cleanModelOutput_nested_quotes:
  "cleanModelOutput [DQ, BSL, DQ, CHR ''a'', BSL, DQ, DQ] = [DQ, CHR ''a'', DQ]"
  "cleanModelOutput [DQ, CHR ''a'', DQ] = ''a''"
  by code_simp+

text \<open>
  Claim C2, amended: applying the normalizer twice gives the same as applying it once
  whenever its result contains no CR LF pair and is not a quoted literal that
  \<open>strconv.Unquote\<close> accepts.  (The result never contains three backquotes in a row and
  never starts or ends with white space, for every input.)
\<close>

theorem cleanModelOutput_idempotent_amended:
  assumes "\<not> sublist [CR, LF] (cleanModelOutput x)"
    and "\<not> (quoted (cleanModelOutput x) \<and> Unquote (cleanModelOutput x) \<noteq> None)"
  shows "cleanModelOutput (cleanModelOutput x) = cleanModelOutput x"
  using cleanModelOutput_trimmed assms(2) cleanModelOutput_no_fence assms(1)
  by (rule cleanModelOutput_fixed)

theorem cleanModelOutput_idempotent_amended_witness:
  "\<not> sublist [CR, LF] (cleanModelOutput (fence @ ''go'' @ [LF] @ ''func f(){}'' @ [LF] @ fence)) \<and>
   \<not> (quoted (cleanModelOutput (fence @ ''go'' @ [LF] @ ''func f(){}'' @ [LF] @ fence)) \<and>
      Unquote (cleanModelOutput (fence @ ''go'' @ [LF] @ ''func f(){}'' @ [LF] @ fence)) \<noteq> None) \<and>
   cleanModelOutput (cleanModelOutput (fence @ ''go'' @ [LF] @ ''func f(){}'' @ [LF] @ fence))
     = cleanModelOutput (fence @ ''go'' @ [LF] @ ''func f(){}'' @ [LF] @ fence)"
proof -
  let ?x = "fence @ ''go'' @ [LF] @ ''func f(){}'' @ [LF] @ fence"
  have a: "\<not> sublist [CR, LF] (cleanModelOutput ?x)"
    unfolding cleanModelOutput_fenced_example by code_simp
  have b: "\<not> (quoted (cleanModelOutput ?x) \<and> Unquote (cleanModelOutput ?x) \<noteq> None)"
    unfolding cleanModelOutput_fenced_example by code_simp
  from a b cleanModelOutput_idempotent_amended [OF a b] show ?thesis by blast
qed

subsection \<open>The backend client\<close>

text \<open>
  Claim C3 says that the POST of the backend client has a timeout of 300 seconds by
  default, which the caller can set.  In \<open>callOllama\<close> the timeout is the constant
  \<open>60 * time.Second\<close>, and no flag or argument reaches it: whatever the arguments and
  the environment, the request that is sent, if one is sent, carries 60 seconds.
\<close>

theorem callOllama_timeout_is_60_seconds:
  "trace (snd (callOllama E url req st)) = trace st \<or>
   trace (snd (callOllama E url req st)) =
     trace st @ [EvHTTP \<lparr>Method = ''POST'', URL = url, ContentType = ''application/json'',
                         Payload = Some req, Timeout = 60 * 1000000000\<rparr>]"
  by (simp add: callOllama_trace_post post_def Second_def)

text \<open>
  Claim C8: on a response with a status below 400, the client decodes the stream up to
  its end and concatenates the \<open>response\<close> fragments in the order of their arrival;
  the text it returns is the normalized concatenation.  A malformed object at any place
  of the stream, whatever was decoded before and whatever follows, is a decode error.
\<close>

theorem stream_concatenated_in_order:
  "decode_loop (map Object objs) [] = (concat (map Response objs), None) \<and>
   decode_loop (map Object objs @ Malformed e # rest) []
     = ([], Some (Err (''failed to decode response: '' @ msg e))) \<and>
   (Marshal_err E req = None \<and> NewRequest_err E url = None \<and>
    Do E (length (filter isHTTP (trace st))) (post url req) = Inr resp \<and> StatusCode resp < 400
    \<longrightarrow>
      (Decoded resp = map Object objs \<longrightarrow>
         fst (callOllama E url req st)
           = (TrimSpace (cleanModelOutput (concat (map Response objs))), None)) \<and>
      (Decoded resp = map Object objs @ Malformed e # rest \<longrightarrow>
         fst (callOllama E url req st)
           = ([], Some (Err (''failed to decode response: '' @ msg e)))))"
proof (intro conjI impI)
  show "decode_loop (map Object objs) [] = (concat (map Response objs), None)"
    using decode_loop_objects [of objs "[]"] by simp
  show m: "decode_loop (map Object objs @ Malformed e # rest) []
     = ([], Some (Err (''failed to decode response: '' @ msg e)))"
    by (rule decode_loop_malformed)
  assume h: "Marshal_err E req = None \<and> NewRequest_err E url = None \<and>
    Do E (length (filter isHTTP (trace st))) (post url req) = Inr resp \<and> StatusCode resp < 400"
  then have c: "fst (callOllama E url req st) =
           (case decode_loop (Decoded resp) [] of
              (result, None) \<Rightarrow> (TrimSpace (cleanModelOutput result), None)
            | (_, Some err) \<Rightarrow> ([], Some err))"
    by (intro callOllama_success) (simp_all add: post_def)
  show "fst (callOllama E url req st)
           = (TrimSpace (cleanModelOutput (concat (map Response objs))), None)"
    if "Decoded resp = map Object objs"
    unfolding c that using decode_loop_objects [of objs "[]"] by simp
  show "fst (callOllama E url req st)
           = ([], Some (Err (''failed to decode response: '' @ msg e)))"
    if "Decoded resp = map Object objs @ Malformed e # rest"
    unfolding c that m by simp
qed

theorem stream_concatenated_in_order_witness:
  "fst (callOllama (backend (\<lambda>n r. Inr (reply [chunk ''ab'' False, chunk ''cd'' True])))
          ''http://localhost:11434/api/generate'' (summarizerReq defaults ''p'') (start Map.empty))
     = (''abcd'', None) \<and>
   fst (callOllama (backend (\<lambda>n r. Inr (reply [chunk ''ab'' False, Malformed (Err ''unexpected EOF'')])))
          ''http://localhost:11434/api/generate'' (summarizerReq defaults ''p'') (start Map.empty))
     = ([], Some (Err ''failed to decode response: unexpected EOF''))"
proof -
  let ?o1 = "\<lparr>resp_Model = [], CreatedAt = [], Response = ''ab'', Done = False\<rparr>"
  let ?o2 = "\<lparr>resp_Model = [], CreatedAt = [], Response = ''cd'', Done = True\<rparr>"
  let ?url = "''http://localhost:11434/api/generate''"
  let ?req = "summarizerReq defaults ''p''"
  let ?E1 = "backend (\<lambda>n r. Inr (reply [chunk ''ab'' False, chunk ''cd'' True]))"
  let ?E2 = "backend (\<lambda>n r. Inr (reply [chunk ''ab'' False, Malformed (Err ''unexpected EOF'')]))"
  have n: "TrimSpace (cleanModelOutput (concat (map Response [?o1, ?o2]))) = ''abcd''"
    by code_simp
  have "fst (callOllama ?E1 ?url ?req (start Map.empty))
      = (TrimSpace (cleanModelOutput (concat (map Response [?o1, ?o2]))), None)"
    using stream_concatenated_in_order [of "[?o1, ?o2]" "Err ''unexpected EOF''" "[]" ?E1 ?req ?url "start Map.empty"
        "reply [chunk ''ab'' False, chunk ''cd'' True]"]
    by (simp add: backend_def reply_def chunk_def start_def)
  moreover have "fst (callOllama ?E2 ?url ?req (start Map.empty))
      = ([], Some (Err (''failed to decode response: '' @ msg (Err ''unexpected EOF''))))"
    using stream_concatenated_in_order [of "[?o1]" "Err ''unexpected EOF''" "[]" ?E2 ?req ?url
        "start Map.empty" "reply [chunk ''ab'' False, Malformed (Err ''unexpected EOF'')]"]
    by (simp add: backend_def reply_def chunk_def start_def)
  ultimately show ?thesis unfolding n by simp
qed

text \<open>
  Claim C10: the \<open>done\<close> flag of a chunk is never read.  Changing the flags of a stream
  in any way changes nothing of what the loop returns, and the fragments that arrive
  after a chunk with \<open>done: true\<close> are appended like the others.
\<close>

theorem done_flag_ignored:
  "decode_loop (map (redone f) items) acc = decode_loop items acc \<and>
   decode_loop (map Object (before @ [obj\<lparr>Done := True\<rparr>] @ after)) []
     = (concat (map Response before) @ Response obj @ concat (map Response after), None)"
  using decode_loop_objects [of "before @ [obj\<lparr>Done := True\<rparr>] @ after" "[]"]
  by (simp add: decode_loop_redone)

subsection \<open>The message sink\<close>

lemma closeHook_files [simp]: "files (closeHook E fl st) = files st"
  by (simp add: closeHook_def Let_def split: option.splits)

lemma final_files:
  assumes "summary_ready E fl st0" and "snd (fst (styled E fl st0)) = None"
  shows "files (snd (main E fl st0)) = files (snd (sunk E fl st0))"
proof -
  have "final_world E fl st0 = finished E fl st0"
    using assms by (auto simp: final_world_def summary_ready_def split: if_splits)
  then have "files (snd (main E fl st0)) = files (finished E fl st0)"
    using main_world [of E fl st0] by (simp add: same_world_def)
  then show ?thesis by (simp add: finished_def)
qed

text \<open>
  Claim C6: with an empty path the sink does nothing.  With a path, when the file does
  not exist or \<open>overwrite\<close> is set, the file holds exactly the message and a newline
  afterwards, whatever it held before.  When the file exists and \<open>overwrite\<close> is not
  set, the file holds what it held, then an empty line end, the delimiter comment line,
  the message and a newline: nothing of the old content is cut or changed.  (The
  operating system is taken to report no error here; the failures are the subject of
  claim C5.)  The message the sink gets in \<open>main\<close> is the final message, and the files
  it leaves are those at the end of the run.
\<close>

theorem message_sink:
  "(hookFile fl = [] \<longrightarrow> hookStage E fl m st = ((None, False), st)) \<and>
   (hookFile fl \<noteq> [] \<and> (files st (hookFile fl) = None \<or> forceWrite fl) \<and>
    WriteFile_err E (hookFile fl) = None \<longrightarrow>
      fst (fst (hookStage E fl m st)) = None \<and>
      files (snd (hookStage E fl m st)) = (files st)(hookFile fl \<mapsto> m @ [LF])) \<and>
   (hookFile fl \<noteq> [] \<and> files st (hookFile fl) = Some old \<and> \<not> forceWrite fl \<and>
    Stat_err E (hookFile fl) = None \<and> OpenFile_err E (hookFile fl) = None \<and>
    WriteString_err E (hookFile fl) = None \<longrightarrow>
      fst (fst (hookStage E fl m st)) = None \<and>
      files (snd (hookStage E fl m st)) =
        (files st)(hookFile fl \<mapsto>
           old @ [LF] @ ''# Suggested commit message (auto-generated):'' @ [LF] @ m @ [LF])) \<and>
   (summary_ready E fl st0 \<and> snd (fst (styled E fl st0)) = None \<longrightarrow>
      files (snd (main E fl st0)) =
        files (snd (hookStage E fl (finalMessage E fl st0) (snd (styled E fl st0)))))"
proof (intro conjI impI)
  show "hookStage E fl m st = ((None, False), st)" if "hookFile fl = []"
    using that by (rule hookStage_none)
next
  assume h: "hookFile fl \<noteq> [] \<and> (files st (hookFile fl) = None \<or> forceWrite fl) \<and>
    WriteFile_err E (hookFile fl) = None"
  then have o: "forceWrite fl \<or> files st (hookFile fl) = None \<or> Stat_err E (hookFile fl) \<noteq> None"
    by blast
  from h hookStage_overwrite [OF _ o, of m]
  show "fst (fst (hookStage E fl m st)) = None"
    and "files (snd (hookStage E fl m st)) = (files st)(hookFile fl \<mapsto> m @ [LF])"
    by simp_all
next
  assume h: "hookFile fl \<noteq> [] \<and> files st (hookFile fl) = Some old \<and> \<not> forceWrite fl \<and>
    Stat_err E (hookFile fl) = None \<and> OpenFile_err E (hookFile fl) = None \<and>
    WriteString_err E (hookFile fl) = None"
  with hookStage_append [of fl st old E m]
  show "fst (fst (hookStage E fl m st)) = None"
    and "files (snd (hookStage E fl m st)) =
        (files st)(hookFile fl \<mapsto>
           old @ [LF] @ ''# Suggested commit message (auto-generated):'' @ [LF] @ m @ [LF])"
    by (simp_all add: suggestion_def)
next
  assume "summary_ready E fl st0 \<and> snd (fst (styled E fl st0)) = None"
  then show "files (snd (main E fl st0)) =
        files (snd (hookStage E fl (finalMessage E fl st0) (snd (styled E fl st0))))"
    using final_files [of E fl st0] by (simp add: sunk_def)
qed

theorem message_sink_witness:
  "files (snd (hookStage (backend (\<lambda>n r. Inr (reply []))) (defaults\<lparr>hookFile := ''MSG''\<rparr>) ''Fix bug''
                 (start Map.empty))) ''MSG''
     = Some (''Fix bug'' @ [LF]) \<and>
   files (snd (hookStage (backend (\<lambda>n r. Inr (reply []))) (defaults\<lparr>hookFile := ''MSG''\<rparr>) ''Fix bug''
                 (start [''MSG'' \<mapsto> ''old'' @ [LF]]))) ''MSG''
     = Some (''old'' @ [LF, LF] @ ''# Suggested commit message (auto-generated):'' @ [LF]
             @ ''Fix bug'' @ [LF]) \<and>
   files (snd (hookStage (backend (\<lambda>n r. Inr (reply [])))
                 (defaults\<lparr>hookFile := ''MSG'', forceWrite := True\<rparr>) ''Fix bug''
                 (start [''MSG'' \<mapsto> ''old'' @ [LF]]))) ''MSG''
     = Some (''Fix bug'' @ [LF]) \<and>
   hookStage (backend (\<lambda>n r. Inr (reply []))) defaults ''Fix bug'' (start Map.empty)
     = ((None, False), start Map.empty)"
proof -
  let ?E = "backend (\<lambda>n r. Inr (reply []))"
  let ?fl = "defaults\<lparr>hookFile := ''MSG''\<rparr>"
  let ?ff = "defaults\<lparr>hookFile := ''MSG'', forceWrite := True\<rparr>"
  have "files (snd (hookStage ?E ?fl ''Fix bug'' (start Map.empty)))
       = (files (start Map.empty))(hookFile ?fl \<mapsto> ''Fix bug'' @ [LF])"
    using message_sink [of ?fl ?E "''Fix bug''" "start Map.empty"]
    by (simp add: defaults_def backend_def start_def)
  moreover have "files (snd (hookStage ?E ?fl ''Fix bug'' (start [''MSG'' \<mapsto> ''old'' @ [LF]])))
       = (files (start [''MSG'' \<mapsto> ''old'' @ [LF]]))(hookFile ?fl \<mapsto>
           (''old'' @ [LF]) @ [LF] @ ''# Suggested commit message (auto-generated):'' @ [LF]
           @ ''Fix bug'' @ [LF])"
    using message_sink [of ?fl ?E "''Fix bug''" "start [''MSG'' \<mapsto> ''old'' @ [LF]]" "''old'' @ [LF]"]
    by (simp add: defaults_def backend_def start_def)
  moreover have "files (snd (hookStage ?E ?ff ''Fix bug'' (start [''MSG'' \<mapsto> ''old'' @ [LF]])))
       = (files (start [''MSG'' \<mapsto> ''old'' @ [LF]]))(hookFile ?ff \<mapsto> ''Fix bug'' @ [LF])"
    using message_sink [of ?ff ?E "''Fix bug''" "start [''MSG'' \<mapsto> ''old'' @ [LF]]"]
    by (simp add: defaults_def backend_def start_def)
  moreover have "hookStage ?E defaults ''Fix bug'' (start Map.empty) = ((None, False), start Map.empty)"
    using message_sink [of defaults ?E "''Fix bug''" "start Map.empty"]
    by (simp add: defaults_def)
  ultimately show ?thesis by (simp add: defaults_def)
qed

subsection \<open>The retry of the summarizer\<close>

text \<open>
  Claim C1 says that any attempt that returns without error is accepted and that the
  run fails with exit code 3 only if all attempts fail.  The loop has no \<open>break\<close>: after
  a first attempt that succeeds it calls the backend again, and the error of that second
  call ends the run.  Here the first attempt returns the summary \<open>Fix bug\<close>, the second
  times out, and the process exits with code 3.
\<close>

theorem retry_loses_first_success:
  "fst (attempt1 (backend (\<lambda>n r. if n = 2 then Inl (Err ''timeout'')
                                   else Inr (reply [chunk ''Fix bug'' True])))
          defaults (start Map.empty)) = (''Fix bug'', None) \<and>
   fst (main (backend (\<lambda>n r. if n = 2 then Inl (Err ''timeout'')
                               else Inr (reply [chunk ''Fix bug'' True])))
          defaults (start Map.empty)) = 3"
  by code_simp

subsection \<open>Label stripping\<close>

text \<open>The example of the specification.\<close>

lemma stripLabels_example:
  "stripLabels (''Title: Fix bug'' @ [LF] @ ''Body: details'' @ [LF] @ ''Extra: info'')
     = ''Fix bug'' @ [LF] @ ''details'' @ [LF] @ ''Extra: info''"
  by code_simp

text \<open>
  Claim C7 says that only the recognized tokens \<open>Title:\<close> and \<open>Body:\<close> are removed
  and that every other line is kept.  The test for the token is made on
  \<open>strings.ToLower(trimmed)\<close>, the cut on \<open>trimmed\<close> itself, at byte 6.  The letter
  U+0130 (capital I with a dot, two bytes) lowers to \<open>i\<close> (one byte), so the line
  \<open>T\<close>U+0130\<open>tle: Fix bug\<close> passes the test, and the cut at byte 6 takes the word
  without its colon: the line becomes \<open>: Fix bug\<close>.
\<close>

theorem stripLabels_dotted_capital_I:
  "stripLabels (''T'' @ [CHR 0xC4, CHR 0xB0] @ ''tle: Fix bug'') = '': Fix bug''"
  by code_simp

subsection \<open>The run as a whole: traces and standard error\<close>


lemma not_summarizer_call [simp]:
  "fileEvent e \<Longrightarrow> \<not> isSummarizerCall fl e"
  "\<not> isSummarizerCall fl (EvGit a)"
  "\<not> isSummarizerCall fl (EvWriteFile p d)"
  "\<not> isSummarizerCall fl (EvReadFile p)"
  "\<not> isSummarizerCall fl (EvHTTP \<lparr>Method = ''GET'', URL = u, ContentType = [], Payload = None,
                                    Timeout = 3 * Second\<rparr>)"
  "\<not> isSummarizerCall fl (EvHTTP (post url (styleReq fl' p)))"
  "isSummarizerCall fl (EvHTTP (post url (summarizerReq fl p)))"
  by (auto simp: isSummarizerCall_def fileEvent_def post_def styleReq_def summarizerReq_def
      split: event.splits)

lemma not_probe [simp]:
  "fileEvent e \<Longrightarrow> \<not> isProbe e"
  "\<not> isProbe (EvHTTP (post url req))"
  by (auto simp: isProbe_def fileEvent_def post_def split: event.splits)

lemma not_git [simp]:
  "fileEvent e \<Longrightarrow> \<not> isGit e"
  "\<not> isGit (EvHTTP r)"
  by (auto simp: isGit_def fileEvent_def split: event.splits)

lemma styled_trace:
  "trace (snd (styled E fl st0)) =
     trace (summarized E fl st0) @
       (if Marshal_err E (styleReq fl (stylePrompt (tone fl) (summary E fl st0))) = None \<and>
           NewRequest_err E (endpoint fl) = None
        then [EvHTTP (post (endpoint fl) (styleReq fl (stylePrompt (tone fl) (summary E fl st0))))]
        else [])"
  unfolding styled_def by (rule callOllama_trace_post)


lemma summarized_trace:
  "loadSummary fl = [] \<Longrightarrow>
   trace (summarized E fl st0) =
     trace (snd (attempt2 E fl st0)) @
       (if saveSummary fl \<noteq> [] then [EvWriteFile (saveSummary fl) (fst (fst (attempt2 E fl st0)))]
        else [])"
  by (simp add: summarized_def summary_def saveStage_trace)

lemma after_style_trace:
  assumes "summary_ready E fl st0"
  shows "\<exists>F. trace (final_world E fl st0) = trace (snd (styled E fl st0)) @ F \<and> list_all fileEvent F"
proof (cases "snd (fst (styled E fl st0)) = None")
  case False
  with assms have "final_world E fl st0 = snd (styled E fl st0)"
    by (auto simp: final_world_def summary_ready_def split: if_splits)
  then show ?thesis by simp
next
  case True
  with assms have "final_world E fl st0 = finished E fl st0"
    by (auto simp: final_world_def summary_ready_def split: if_splits)
  then show ?thesis using finished_trace [of E fl st0] by simp
qed

lemma normal_flow_trace:
  assumes nl: "loadSummary fl = []" and p: "fst (probed E fl st0) = None"
    and d: "snd (fst (diffed E fl st0)) = None"
  defines "req \<equiv> summarizerReq fl (summaryPrompt (fst (fst (diffed E fl st0))))"
  defines "call \<equiv> (if Marshal_err E req = None \<and> NewRequest_err E (endpoint fl) = None
                     then [EvHTTP (post (endpoint fl) req)] else [])"
  shows "\<exists>before after.
           trace (snd (main E fl st0)) = trace st0 @ before @ call @ call @ after \<and>
           list_all (\<lambda>e. \<not> isSummarizerCall fl e) before \<and>
           list_all (\<lambda>e. \<not> isSummarizerCall fl e) after \<and>
           (snd (fst (attempt2 E fl st0)) = None \<longrightarrow>
              (saveSummary fl \<noteq> [] \<longrightarrow>
                 EvWriteFile (saveSummary fl) (fst (fst (attempt2 E fl st0))) \<in> set after) \<and>
              (Marshal_err E (styleReq fl (stylePrompt (tone fl) (fst (fst (attempt2 E fl st0))))) = None
               \<and> NewRequest_err E (endpoint fl) = None \<longrightarrow>
                 EvHTTP (post (endpoint fl)
                   (styleReq fl (stylePrompt (tone fl) (fst (fst (attempt2 E fl st0)))))) \<in> set after))"
proof -
  have tr: "trace (snd (main E fl st0)) = trace (final_world E fl st0)"
    using main_world [of E fl st0] by (simp add: same_world_def)
  obtain u where pt: "trace (snd (probed E fl st0)) =
     trace st0 @ [EvHTTP \<lparr>Method = ''GET'', URL = u, ContentType = [], Payload = None,
                          Timeout = 3 * Second\<rparr>]"
    using checkOllama_trace [OF p [unfolded probed_def]] unfolding probed_def by blast
  obtain g where dt: "trace (snd (diffed E fl st0)) = trace (snd (probed E fl st0)) @ g"
    "list_all (\<lambda>e. \<exists>a. e = EvGit a) g"
    using getStagedDiff_trace unfolding diffed_def by blast
  define before where "before = EvHTTP \<lparr>Method = ''GET'', URL = u, ContentType = [], Payload = None,
                          Timeout = 3 * Second\<rparr> # g"
  have b: "list_all (\<lambda>e. \<not> isSummarizerCall fl e) before"
    unfolding before_def using dt(2) by (auto simp: list_all_iff)
  have a1: "trace (snd (attempt1 E fl st0)) = trace st0 @ before @ call"
    unfolding attempt1_def callOllama_trace_post dt(1) pt before_def call_def req_def by simp
  have a2: "trace (snd (attempt2 E fl st0)) = trace st0 @ before @ call @ call"
    unfolding attempt2_def callOllama_trace_post a1 call_def req_def by simp
  show ?thesis
  proof (cases "snd (fst (attempt2 E fl st0)) = None")
    case False
    with nl p d have "final_world E fl st0 = snd (attempt2 E fl st0)"
      by (simp add: final_world_def)
    then have "trace (snd (main E fl st0)) = trace st0 @ before @ call @ call @ []"
      by (simp add: tr a2)
    show ?thesis
      apply (rule exI [where x = before])
      apply (rule exI [where x = "[]"])
      using b False \<open>trace (snd (main E fl st0)) = trace st0 @ before @ call @ call @ []\<close>
      by auto
  next
    case True
    with nl p d have rdy: "summary_ready E fl st0" by (simp add: summary_ready_def)
    have s: "summary E fl st0 = fst (fst (attempt2 E fl st0))" using nl by (simp add: summary_def)
    from after_style_trace [OF rdy] obtain F where
      n: "trace (final_world E fl st0) = trace (snd (styled E fl st0)) @ F" "list_all fileEvent F"
      by blast
    let ?sreq = "styleReq fl (stylePrompt (tone fl) (fst (fst (attempt2 E fl st0))))"
    let ?W = "if saveSummary fl \<noteq> [] then [EvWriteFile (saveSummary fl) (fst (fst (attempt2 E fl st0)))]
        else []"
    let ?S = "if Marshal_err E ?sreq = None \<and> NewRequest_err E (endpoint fl) = None
        then [EvHTTP (post (endpoint fl) ?sreq)] else []"
    have t: "trace (snd (main E fl st0)) = trace st0 @ before @ call @ call @ (?W @ ?S @ F)"
      unfolding tr n(1) styled_trace s summarized_trace [OF nl] a2 by simp
    have na: "list_all (\<lambda>e. \<not> isSummarizerCall fl e) (?W @ ?S @ F)"
      using n(2) by (auto simp: list_all_iff)
    have w: "saveSummary fl \<noteq> [] \<longrightarrow>
        EvWriteFile (saveSummary fl) (fst (fst (attempt2 E fl st0))) \<in> set (?W @ ?S @ F)"
      by simp
    have st: "Marshal_err E ?sreq = None \<and> NewRequest_err E (endpoint fl) = None \<longrightarrow>
        EvHTTP (post (endpoint fl) ?sreq) \<in> set (?W @ ?S @ F)"
      by simp
    show ?thesis
      apply (rule exI [where x = before])
      apply (rule exI [where x = "?W @ ?S @ F"])
      using t b na w st by blast
  qed
qed

lemma filter_none: "list_all (\<lambda>e. \<not> P e) xs \<Longrightarrow> filter P xs = []"
  by (induction xs) auto

lemma stderr_log [simp]:
  "stderr (emit e st) = stderr st"
  "stderr (eprint m st) = stderr st @ [Write m]"
  "stderr (logPrintf m st) = stderr st @ [Log m]"
  "stderr (statusf m' st) = stderr st @ [Write (''[status] '' @ m' @ [LF])]"
  by (simp_all add: emit_def eprint_def logPrintf_def statusf_def)









subsection \<open>The load path\<close>



subsection \<open>The summarizer is always called twice\<close>

text \<open>
  Claim C9: the retry loop calls the backend client twice, whatever the first call
  returns, and the variables \<open>sum\<close> and \<open>lastErr\<close> hold the result of the second call
  afterwards.  In a run of the normal flow that passes the probe and the diff, the
  requests of the summarizer that leave the process are two, the same twice (when the
  request can be built at all).  When the second call succeeds, the text written by
  the save step and the text in the prompt of the styling request are the text of the
  second call.
\<close>

theorem summarizer_called_twice_second_result_kept:
  "summarizer_loop E fl url prompt 1 vars st =
     (case callOllama E url (summarizerReq fl prompt) st of
        (r1, st1) \<Rightarrow>
          (case callOllama E url (summarizerReq fl prompt) (attempt_report fl 1 r1 st1) of
             (r2, st2) \<Rightarrow> (r2, attempt_report fl 2 r2 st2))) \<and>
   (loadSummary fl = [] \<and> fst (probed E fl st0) = None \<and> snd (fst (diffed E fl st0)) = None \<and>
    trace st0 = [] \<and>
    Marshal_err E (summarizerReq fl (summaryPrompt (fst (fst (diffed E fl st0))))) = None \<and>
    NewRequest_err E (endpoint fl) = None \<longrightarrow>
      filter (isSummarizerCall fl) (trace (snd (main E fl st0))) =
        [EvHTTP (post (endpoint fl) (summarizerReq fl (summaryPrompt (fst (fst (diffed E fl st0)))))),
         EvHTTP (post (endpoint fl) (summarizerReq fl (summaryPrompt (fst (fst (diffed E fl st0))))))]) \<and>
   (loadSummary fl = [] \<and> fst (probed E fl st0) = None \<and> snd (fst (diffed E fl st0)) = None \<and>
    snd (fst (attempt2 E fl st0)) = None \<longrightarrow>
      (saveSummary fl \<noteq> [] \<longrightarrow>
         EvWriteFile (saveSummary fl) (fst (fst (attempt2 E fl st0)))
           \<in> set (trace (snd (main E fl st0)))) \<and>
      (Marshal_err E (styleReq fl (stylePrompt (tone fl) (fst (fst (attempt2 E fl st0))))) = None \<and>
       NewRequest_err E (endpoint fl) = None \<longrightarrow>
         EvHTTP (post (endpoint fl)
                  (styleReq fl (stylePrompt (tone fl) (fst (fst (attempt2 E fl st0))))))
           \<in> set (trace (snd (main E fl st0)))))"
proof (intro conjI impI)
  show "summarizer_loop E fl url prompt 1 vars st =
     (case callOllama E url (summarizerReq fl prompt) st of
        (r1, st1) \<Rightarrow>
          (case callOllama E url (summarizerReq fl prompt) (attempt_report fl 1 r1 st1) of
             (r2, st2) \<Rightarrow> (r2, attempt_report fl 2 r2 st2)))"
    by (rule summarizer_loop_twice)
next
  let ?req = "summarizerReq fl (summaryPrompt (fst (fst (diffed E fl st0))))"
  assume h: "loadSummary fl = [] \<and> fst (probed E fl st0) = None \<and> snd (fst (diffed E fl st0)) = None \<and>
    trace st0 = [] \<and> Marshal_err E ?req = None \<and> NewRequest_err E (endpoint fl) = None"
  then obtain before after where
    t: "trace (snd (main E fl st0)) = trace st0 @ before @
          (if Marshal_err E ?req = None \<and> NewRequest_err E (endpoint fl) = None
           then [EvHTTP (post (endpoint fl) ?req)] else []) @
          (if Marshal_err E ?req = None \<and> NewRequest_err E (endpoint fl) = None
           then [EvHTTP (post (endpoint fl) ?req)] else []) @ after"
    and b: "list_all (\<lambda>e. \<not> isSummarizerCall fl e) before"
    and a: "list_all (\<lambda>e. \<not> isSummarizerCall fl e) after"
    using normal_flow_trace [of fl E st0] by blast
  from h t have "trace (snd (main E fl st0)) =
      before @ [EvHTTP (post (endpoint fl) ?req), EvHTTP (post (endpoint fl) ?req)] @ after"
    by simp
  then show "filter (isSummarizerCall fl) (trace (snd (main E fl st0))) =
        [EvHTTP (post (endpoint fl) ?req), EvHTTP (post (endpoint fl) ?req)]"
    using filter_none [OF b] filter_none [OF a] by simp
next
  assume h: "loadSummary fl = [] \<and> fst (probed E fl st0) = None \<and> snd (fst (diffed E fl st0)) = None \<and>
    snd (fst (attempt2 E fl st0)) = None"
  then obtain before c after where
    t: "trace (snd (main E fl st0)) = trace st0 @ before @ c @ c @ after"
    and w: "saveSummary fl \<noteq> [] \<longrightarrow>
                 EvWriteFile (saveSummary fl) (fst (fst (attempt2 E fl st0))) \<in> set after"
    and s: "Marshal_err E (styleReq fl (stylePrompt (tone fl) (fst (fst (attempt2 E fl st0))))) = None
               \<and> NewRequest_err E (endpoint fl) = None \<longrightarrow>
                 EvHTTP (post (endpoint fl)
                   (styleReq fl (stylePrompt (tone fl) (fst (fst (attempt2 E fl st0)))))) \<in> set after"
    using normal_flow_trace [of fl E st0] by blast
  show "EvWriteFile (saveSummary fl) (fst (fst (attempt2 E fl st0)))
           \<in> set (trace (snd (main E fl st0)))" if "saveSummary fl \<noteq> []"
    using that w unfolding t by simp
  show "EvHTTP (post (endpoint fl)
                  (styleReq fl (stylePrompt (tone fl) (fst (fst (attempt2 E fl st0))))))
           \<in> set (trace (snd (main E fl st0)))"
    if "Marshal_err E (styleReq fl (stylePrompt (tone fl) (fst (fst (attempt2 E fl st0))))) = None \<and>
       NewRequest_err E (endpoint fl) = None"
    using that s unfolding t by simp
qed

theorem summarizer_called_twice_second_result_kept_witness:
  "fst (attempt1 two_summaries (defaults\<lparr>saveSummary := ''s.txt''\<rparr>) (start Map.empty))
     = (''first'', None) \<and>
   fst (attempt2 two_summaries (defaults\<lparr>saveSummary := ''s.txt''\<rparr>) (start Map.empty))
     = (''second'', None) \<and>
   filter (isSummarizerCall (defaults\<lparr>saveSummary := ''s.txt''\<rparr>))
     (trace (snd (main two_summaries (defaults\<lparr>saveSummary := ''s.txt''\<rparr>) (start Map.empty))))
     = [EvHTTP (post defaultOllamaURL (summarizerReq defaults (summaryPrompt ''+line''))),
        EvHTTP (post defaultOllamaURL (summarizerReq defaults (summaryPrompt ''+line'')))] \<and>
   EvWriteFile ''s.txt'' ''second''
     \<in> set (trace (snd (main two_summaries (defaults\<lparr>saveSummary := ''s.txt''\<rparr>) (start Map.empty)))) \<and>
   EvHTTP (post defaultOllamaURL (styleReq defaults (stylePrompt ''chaotic, wild, funny'' ''second'')))
     \<in> set (trace (snd (main two_summaries (defaults\<lparr>saveSummary := ''s.txt''\<rparr>) (start Map.empty))))"
proof -
  let ?E = two_summaries
  let ?fl = "defaults\<lparr>saveSummary := ''s.txt''\<rparr>"
  let ?st = "start Map.empty"
  have p: "fst (probed ?E ?fl ?st) = None" by code_simp
  have d: "fst (diffed ?E ?fl ?st) = (''+line'', None)" by code_simp
  have a1: "fst (attempt1 ?E ?fl ?st) = (''first'', None)" by code_simp
  have a2: "fst (attempt2 ?E ?fl ?st) = (''second'', None)" by code_simp
  have e: "endpoint ?fl = defaultOllamaURL" "tone ?fl = ''chaotic, wild, funny''"
    "styleReq ?fl = styleReq defaults" "summarizerReq ?fl = summarizerReq defaults"
    "saveSummary ?fl = ''s.txt''" "loadSummary ?fl = []" "trace ?st = []"
    "Marshal_err ?E = (\<lambda>_. None)" "NewRequest_err ?E = (\<lambda>_. None)"
    by (simp_all add: endpoint_def defaults_def styleReq_def summarizerReq_def fun_eq_iff
        start_def two_summaries_def backend_def)
  from summarizer_called_twice_second_result_kept [of ?E ?fl defaultOllamaURL "''p''" "([], None)" ?st ?st]
  show ?thesis unfolding a1 a2 p d e by simp
qed

subsection \<open>Exit codes\<close>













end
